theory Spec2Isabelle
  imports Complex_Main
begin

section \<open>The adaptive sampling engine of \<open>benchmark.hpp\<close>\<close>

text \<open>
  The class template \<open>benchmark\<close> of \<open>include/benchmark/benchmark.hpp\<close> is embedded
  function by function. The callable under test and the clock around it are the
  environment: the \<open>k\<close>-th timed invocation of \<open>fn()\<close> (counted from 0 over the whole
  execution) either throws, or returns after a measured
  \<open>duration_cast<nanoseconds>(end - start).count()\<close> of \<open>d\<close> nanoseconds. An exception
  is a result \<open>Inl\<close>, paired with the console as it is when the exception leaves.
\<close>

subsection \<open>Data model\<close>

type_synonym callable = "nat \<Rightarrow> int option"

text \<open>
  Values of type \<open>long double\<close>. Every quantity the loop computes up to the standard
  deviation is built from integer nanosecond counts by sums, differences, squares, a
  division by the non-zero sample size and a square root of a non-negative number; these
  are finite and are taken as exact reals (rounding is not modelled). The quotient
  \<open>standard_deviation * 100 / mean\<close> is the one operation whose divisor can be zero, so
  its result and \<open>lowest_rsd\<close> range over the finite values, the infinities and NaN.
\<close>

datatype long_double = Finite real | PosInf | NegInf | NaN

text \<open>The comparison \<open>a < b\<close> on \<open>long double\<close>: false as soon as one side is NaN.\<close>

fun ld_less :: "long_double \<Rightarrow> long_double \<Rightarrow> bool" where
  "ld_less NaN b = False"
| "ld_less a NaN = False"
| "ld_less (Finite a) (Finite b) = (a < b)"
| "ld_less (Finite a) PosInf = True"
| "ld_less NegInf (Finite b) = True"
| "ld_less NegInf PosInf = True"
| "ld_less a b = False"

text \<open>\<open>a <= b\<close> on \<open>long double\<close>, used to state that a value did not increase.\<close>

fun ld_le :: "long_double \<Rightarrow> long_double \<Rightarrow> bool" where
  "ld_le NaN b = False"
| "ld_le a NaN = False"
| "ld_le (Finite a) (Finite b) = (a \<le> b)"
| "ld_le a PosInf = True"
| "ld_le NegInf b = True"
| "ld_le a b = False"

text \<open>
  The quotient \<open>x / y\<close> of two finite values, the divisor being \<open>+0.0\<close> when it is zero
  (the mean is a sum started at \<open>0.0\<close>, divided by a positive size).
\<close>

definition ld_div :: "real \<Rightarrow> real \<Rightarrow> long_double" where
  "ld_div x y =
     (if y = 0 then (if x = 0 then NaN else if 0 < x then PosInf else NegInf)
      else Finite (x / y))"

text \<open>\<open>std::min(a, b)\<close> is \<open>(b < a) ? b : a\<close>.\<close>

definition std_min :: "real \<Rightarrow> real \<Rightarrow> real" where
  "std_min a b = (if b < a then b else a)"

definition std_min_ld :: "long_double \<Rightarrow> long_double \<Rightarrow> long_double" where
  "std_min_ld a b = (if ld_less b a then b else a)"

text \<open>
  The calls made on the progress bar of the \<open>indicators\<close> library, in order. The postfix
  text carries \<open>num_runs\<close>, \<open>max_num_runs_\<close>, \<open>mean_lowest_rsd\<close>, \<open>lowest_rsd\<close> and
  \<open>num_iterations_lowest_rsd\<close>.
\<close>

datatype bar_call =
    BlockProgressBar string nat
  | SetMaxProgress nat
  | SetProgress nat
  | SetPostfixText nat nat real long_double nat
  | MarkAsCompleted

record world =
  calls :: nat
  cursor_shown :: bool
  bar :: "bar_call list"

datatype error = CallableThrew | OutOfRange

text \<open>
  The members \<open>num_iterations_\<close> and \<open>max_num_runs_\<close> of the class and the locals of its
  constructor.
\<close>

record bench =
  num_iterations :: nat
  max_num_runs :: nat
  lowest_rsd :: long_double
  num_iterations_lowest_rsd :: nat
  mean_lowest_rsd :: real
  num_runs :: nat
  durations :: "real list"

record statistics =
  mean :: real
  variance :: real
  standard_deviation :: real
  relative_standard_deviation :: long_double

subsection \<open>Operations\<close>

text \<open>One timed invocation: \<open>start = now(); fn(); end = now(); (end - start).count()\<close>.\<close>

definition timed_call :: "callable \<Rightarrow> world \<Rightarrow> (error + int) \<times> world" where
  "timed_call fn w =
     (case fn (calls w) of
        None \<Rightarrow> (Inl CallableThrew, w\<lparr>calls := Suc (calls w)\<rparr>)
      | Some d \<Rightarrow> (Inr d, w\<lparr>calls := Suc (calls w)\<rparr>))"

definition show_console_cursor :: "bool \<Rightarrow> world \<Rightarrow> world" where
  "show_console_cursor b w = w\<lparr>cursor_shown := b\<rparr>"

definition bar_do :: "bar_call \<Rightarrow> world \<Rightarrow> world" where
  "bar_do c w = w\<lparr>bar := bar w @ [c]\<rparr>"

text \<open>The \<open>for\<close> loop of \<open>estimate_execution_time\<close>, from index \<open>i\<close> on.\<close>

function estimate_loop ::
  "callable \<Rightarrow> nat \<Rightarrow> nat \<Rightarrow> bool \<Rightarrow> real \<Rightarrow> world \<Rightarrow> (error + real) \<times> world" where
  "estimate_loop fn warmup_runs i first_run result w =
     (if i < warmup_runs then
        (case timed_call fn w of
           (Inl e, w') \<Rightarrow> (Inl e, w')
         | (Inr d, w') \<Rightarrow>
             (let execution_time = real_of_int d in
              if first_run then estimate_loop fn warmup_runs (i + 1) False execution_time w'
              else estimate_loop fn warmup_runs (i + 1) first_run
                     (std_min execution_time result) w'))
      else (Inr result, w))"
  by pat_completeness auto
termination
  by (relation "measure (\<lambda>(fn, warmup_runs, i, first_run, result, w). warmup_runs - i)") auto

declare estimate_loop.simps [simp del]

text \<open>
  \<open>result\<close> is declared without a value and assigned in the first iteration
  (\<open>warmup_runs\<close> is 10); the loop starts here from 0.
\<close>

definition estimate_execution_time :: "callable \<Rightarrow> world \<Rightarrow> (error + real) \<times> world" where
  "estimate_execution_time fn w = estimate_loop fn 10 0 True 0 w"

text \<open>The \<open>if\<close> chain of \<open>update_iterations\<close> on the early estimate.\<close>

definition set_iterations :: "real \<Rightarrow> bench \<Rightarrow> bench" where
  "set_iterations early_estimate_execution_time st =
     (if early_estimate_execution_time < 100 then
        st\<lparr>num_iterations := 128000, max_num_runs := 10000\<rparr>
      else if early_estimate_execution_time < 1000 then
        st\<lparr>num_iterations := 64000, max_num_runs := 5000\<rparr>
      else if early_estimate_execution_time < 1000000 then
        st\<lparr>num_iterations := 32000, max_num_runs := 1000\<rparr>
      else if early_estimate_execution_time < 1000000000 then
        st\<lparr>num_iterations := 4000, max_num_runs := 100\<rparr>
      else
        st\<lparr>num_iterations := 1000, max_num_runs := 10\<rparr>)"

definition update_iterations :: "callable \<Rightarrow> bench \<Rightarrow> world \<Rightarrow> (error + bench) \<times> world" where
  "update_iterations fn st w =
     (case estimate_execution_time fn w of
        (Inl e, w') \<Rightarrow> (Inl e, w')
      | (Inr early_estimate_execution_time, w') \<Rightarrow>
          (Inr (set_iterations early_estimate_execution_time st), w'))"

text \<open>The \<open>for\<close> loop of the benchmark runs of one round, from index \<open>i\<close> on.\<close>

function benchmark_runs ::
  "callable \<Rightarrow> nat \<Rightarrow> nat \<Rightarrow> real list \<Rightarrow> world \<Rightarrow> (error + real list) \<times> world" where
  "benchmark_runs fn n i ds w =
     (if i < n then
        (case timed_call fn w of
           (Inl e, w') \<Rightarrow> (Inl e, w')
         | (Inr execution_time, w') \<Rightarrow>
             benchmark_runs fn n (i + 1) (ds @ [real_of_int execution_time]) w')
      else (Inr ds, w))"
  by pat_completeness auto
termination
  by (relation "measure (\<lambda>(fn, n, i, ds, w). n - i)") auto

declare benchmark_runs.simps [simp del]

text \<open>
  The loop \<open>E += std::pow(durations.at(i) - mean, 2)\<close>, from index \<open>i\<close> on; \<open>at\<close> throws
  \<open>std::out_of_range\<close> past the end of the vector.
\<close>

function sum_squares :: "real list \<Rightarrow> real \<Rightarrow> nat \<Rightarrow> nat \<Rightarrow> real \<Rightarrow> error + real" where
  "sum_squares ds m sz i E =
     (if i < sz then
        (if i < length ds then sum_squares ds m sz (i + 1) (E + (ds ! i - m)\<^sup>2)
         else Inl OutOfRange)
      else Inr E)"
  by pat_completeness auto
termination
  by (relation "measure (\<lambda>(ds, m, sz, i, E). sz - i)") auto

declare sum_squares.simps [simp del]

text \<open>
  Lines 133 to 142: the statistics of the round's sample, \<open>sz\<close> being the local \<open>size\<close>.
  It is \<open>num_iterations_\<close>, which \<open>update_iterations\<close> sets to 1000 at least, so the two
  divisions by \<open>size\<close> never divide by zero.
\<close>

definition round_statistics :: "real list \<Rightarrow> nat \<Rightarrow> error + statistics" where
  "round_statistics ds sz =
     (let m = sum_list ds / real sz in
      case sum_squares ds m sz 0 0 of
        Inl e \<Rightarrow> Inl e
      | Inr E \<Rightarrow>
          (let v = E / real sz;
               sd = sqrt v
           in Inr \<lparr>mean = m, variance = v, standard_deviation = sd,
                   relative_standard_deviation = ld_div (sd * 100) m\<rparr>))"

text \<open>Lines 144 to 150: save the record of the lowest RSD.\<close>

definition save_record :: "long_double \<Rightarrow> real \<Rightarrow> bench \<Rightarrow> bench" where
  "save_record rsd m st =
     (let current_lowest_rsd = lowest_rsd st;
          st' = st\<lparr>lowest_rsd := std_min_ld rsd (lowest_rsd st)\<rparr>
      in if ld_less (lowest_rsd st') current_lowest_rsd then
           st'\<lparr>num_iterations_lowest_rsd := num_iterations st', mean_lowest_rsd := m\<rparr>
         else st')"

text \<open>Lines 121 to 162: the body of the \<open>while\<close> loop up to its exit test.\<close>

definition sampling_round :: "callable \<Rightarrow> bench \<Rightarrow> world \<Rightarrow> (error + bench) \<times> world" where
  "sampling_round fn st w =
     (case update_iterations fn st w of
        (Inl e, w1) \<Rightarrow> (Inl e, w1)
      | (Inr st1, w1) \<Rightarrow>
          (let w2 = bar_do (SetMaxProgress (max_num_runs st1)) w1 in
           case benchmark_runs fn (num_iterations st1) 0 (durations st1) w2 of
             (Inl e, w3) \<Rightarrow> (Inl e, w3)
           | (Inr ds, w3) \<Rightarrow>
               (case round_statistics ds (num_iterations st1) of
                  Inl e \<Rightarrow> (Inl e, w3)
                | Inr s \<Rightarrow>
                    (let st2 = save_record (relative_standard_deviation s) (mean s)
                                 (st1\<lparr>durations := ds\<rparr>);
                         w4 = bar_do (SetProgress (num_runs st2)) w3;
                         w5 = bar_do (SetPostfixText (num_runs st2) (max_num_runs st2)
                                (mean_lowest_rsd st2) (lowest_rsd st2)
                                (num_iterations_lowest_rsd st2)) w4
                     in (Inr st2, w5)))))"

text \<open>
  The loop \<open>while(true)\<close> with its exit test (lines 164 to 170): \<open>None\<close> is a loop that
  never leaves.
\<close>

partial_function (option) sampling_loop ::
  "callable \<Rightarrow> bench \<Rightarrow> world \<Rightarrow> ((error + bench) \<times> world) option" where
  "sampling_loop fn st w =
     (case sampling_round fn st w of
        (Inl e, w') \<Rightarrow> Some (Inl e, w')
      | (Inr st', w') \<Rightarrow>
          if num_runs st' \<ge> max_num_runs st' then
            Some (Inr st', bar_do MarkAsCompleted w')
          else sampling_loop fn (st'\<lparr>durations := [], num_runs := num_runs st' + 1\<rparr>) w')"

definition initial_bench :: bench where
  "initial_bench =
     \<lparr>num_iterations = 0, max_num_runs = 0, lowest_rsd = Finite 100,
      num_iterations_lowest_rsd = 0, mean_lowest_rsd = 0, num_runs = 0, durations = []\<rparr>"

text \<open>The constructor \<open>benchmark(name, fn)\<close>.\<close>

definition benchmark ::
  "string \<Rightarrow> callable \<Rightarrow> world \<Rightarrow> ((error + bench) \<times> world) option" where
  "benchmark name fn w =
     (case update_iterations fn initial_bench w of
        (Inl e, w1) \<Rightarrow> Some (Inl e, w1)
      | (Inr st, w1) \<Rightarrow>
          (let w2 = show_console_cursor False w1;
               w3 = bar_do (BlockProgressBar name (max_num_runs st)) w2
           in case sampling_loop fn st w3 of
                None \<Rightarrow> None
              | Some (Inl e, w4) \<Rightarrow> Some (Inl e, w4)
              | Some (Inr st', w4) \<Rightarrow> Some (Inr st', show_console_cursor True w4)))"

subsection \<open>Comparison definitions and concrete inputs\<close>

text \<open>
  The estimator as the specification words it: ten calls, the first call's duration
  discarded, the minimum of the nine remaining durations returned.
\<close>

definition estimate_discarding_first :: "callable \<Rightarrow> world \<Rightarrow> (error + real) \<times> world" where
  "estimate_discarding_first fn w =
     (case timed_call fn w of
        (Inl e, w') \<Rightarrow> (Inl e, w')
      | (Inr d0, w') \<Rightarrow>
          (case timed_call fn w' of
             (Inl e, w'') \<Rightarrow> (Inl e, w'')
           | (Inr d1, w'') \<Rightarrow> estimate_loop fn 10 2 False (real_of_int d1) w''))"

text \<open>The console before a benchmark is constructed: cursor shown, no bar yet.\<close>

definition start :: world where
  "start = \<lparr>calls = 0, cursor_shown = True, bar = []\<rparr>"

text \<open>A callable whose first call takes 5 ns and every later call 100 ns.\<close>

definition fast_first_call :: callable where
  "fast_first_call k = (if k = 0 then Some 5 else Some 100)"

text \<open>A callable every call of which returns after \<open>d\<close> ns.\<close>

definition constant_callable :: "int \<Rightarrow> callable" where
  "constant_callable d k = Some d"

text \<open>
  A callable that takes 50 ns in each of its first ten calls (the planning before the
  loop) and throws in its eleventh.
\<close>

definition throws_in_loop :: callable where
  "throws_in_loop k = (if k < 10 then Some 50 else None)"

text \<open>The arguments of the \<open>set_progress\<close> calls made on the bar, one per round measured.\<close>

fun progress_shown :: "bar_call list \<Rightarrow> nat list" where
  "progress_shown [] = []"
| "progress_shown (SetProgress n # cs) = n # progress_shown cs"
| "progress_shown (c # cs) = progress_shown cs"

text \<open>
  The convergence record carried through a sequence of rounds, each round given by the
  RSD and the mean it computed and the iteration count it ran with: lines 144 to 150
  applied round after round, listing the state after every round.
\<close>

fun records_after :: "(long_double \<times> real \<times> nat) list \<Rightarrow> bench \<Rightarrow> bench list" where
  "records_after [] st = []"
| "records_after ((rsd, m, n) # rounds) st =
     (let st' = save_record rsd m (st\<lparr>num_iterations := n\<rparr>)
      in st' # records_after rounds st')"


text \<open>The callable that never throws and whose \<open>k\<close>-th call is measured at \<open>d k\<close> ns.\<close>

definition returning :: "(nat \<Rightarrow> int) \<Rightarrow> callable" where
  "returning d k = Some (d k)"

text \<open>
  Durations of 50 ns through the first planning, the first round and the planning of
  the second round (calls 0 to 128029), of 0 ns through the 128000 iterations of the
  second round and the planning of the third (calls 128030 to 256039), of 150 ns in the
  first 25600 iterations of the third round (calls 256040 to 281639), and of 0 ns from
  then on.
\<close>

definition zero_round_between :: "nat \<Rightarrow> int" where
  "zero_round_between k =
     (if k < 128030 then 50
      else if k < 256040 then 0
      else if k < 281640 then 150
      else 0)"

text \<open>
  Durations of 0 ns except in the first 12800 iterations of the second round
  (calls 128030 to 140829), measured at 200 ns, and in the first 25600 iterations of the
  third round (calls 256040 to 281639), measured at 150 ns.
\<close>

definition zero_round_first :: "nat \<Rightarrow> int" where
  "zero_round_first k =
     (if 128030 \<le> k \<and> k < 140830 then 200
      else if 256040 \<le> k \<and> k < 281640 then 150
      else 0)"

text \<open>The values of \<open>lowest_rsd\<close> written into the postfix text, one per round.\<close>

fun lowest_rsd_shown :: "bar_call list \<Rightarrow> long_double list" where
  "lowest_rsd_shown [] = []"
| "lowest_rsd_shown (SetPostfixText r m mu rsd n # cs) = rsd # lowest_rsd_shown cs"
| "lowest_rsd_shown (c # cs) = lowest_rsd_shown cs"

section \<open>Properties\<close>

subsection \<open>The warm-up estimator\<close>

lemma std_min_eq_min: "std_min a b = min a b"
  by (simp add: std_min_def min_def)

lemma timed_call_Some:
  "fn (calls w) = Some d \<Longrightarrow> timed_call fn w = (Inr d, w\<lparr>calls := Suc (calls w)\<rparr>)"
  by (simp add: timed_call_def)

lemma timed_call_world:
  "timed_call fn w = (r, w') \<Longrightarrow>
     cursor_shown w' = cursor_shown w \<and> bar w' = bar w \<and> calls w' = Suc (calls w)"
  by (auto simp: timed_call_def split: option.splits)

lemma estimate_loop_returns:
  "\<forall>j < n - i. fn (calls w + j) = Some (d j) \<Longrightarrow>
   estimate_loop fn n i False r w =
     (Inr (fold min (map (\<lambda>j. real_of_int (d j)) [0..<n - i]) r),
      w\<lparr>calls := calls w + (n - i)\<rparr>)"
proof (induction "n - i" arbitrary: i r w d)
  case 0
  then show ?case by (simp add: estimate_loop.simps [of fn n i])
next
  case (Suc k)
  from Suc.hyps(2) have lt: "i < n" and k: "k = n - (i + 1)" by simp_all
  from Suc.prems Suc.hyps(2) have d0: "fn (calls w) = Some (d 0)" by force
  let ?w = "w\<lparr>calls := Suc (calls w)\<rparr>"
  have rest: "\<forall>j < n - (i + 1). fn (calls ?w + j) = Some ((d \<circ> Suc) j)"
  proof (intro allI impI)
    fix j assume "j < n - (i + 1)"
    then have "Suc j < n - i" by simp
    with Suc.prems have "fn (calls w + Suc j) = Some (d (Suc j))" by blast
    then show "fn (calls ?w + j) = Some ((d \<circ> Suc) j)" by simp
  qed
  have split: "[0..<n - i] = 0 # map Suc [0..<n - (i + 1)]"
    using Suc.hyps(2) k by (metis map_Suc_upt upt_conv_Cons zero_less_Suc)
  have "estimate_loop fn n i False r w =
          estimate_loop fn n (i + 1) False (std_min (real_of_int (d 0)) r) ?w"
    using lt by (simp add: estimate_loop.simps [of fn n i] timed_call_Some [of fn w, OF d0])
  also have "\<dots> = (Inr (fold min (map (\<lambda>j. real_of_int ((d \<circ> Suc) j)) [0..<n - (i + 1)])
                        (std_min (real_of_int (d 0)) r)),
                  ?w\<lparr>calls := calls ?w + (n - (i + 1))\<rparr>)"
    by (rule Suc.hyps(1) [OF k rest])
  also have "\<dots> = (Inr (fold min (map (\<lambda>j. real_of_int (d j)) [0..<n - i]) r),
                  w\<lparr>calls := calls w + (n - i)\<rparr>)"
    using lt by (simp add: split std_min_eq_min comp_def)
  finally show ?case .
qed

lemma estimate_execution_time_returns:
  assumes "\<forall>j < 10. fn (calls w + j) = Some (d j)"
  shows "estimate_execution_time fn w =
           (Inr (Min ((\<lambda>j. real_of_int (d j)) ` {..<10})), w\<lparr>calls := calls w + 10\<rparr>)"
proof -
  let ?f = "\<lambda>j. real_of_int (d j)"
  let ?w = "w\<lparr>calls := Suc (calls w)\<rparr>"
  from assms have d0: "fn (calls w) = Some (d 0)" by force
  have rest: "\<forall>j < 10 - (0 + 1). fn (calls ?w + j) = Some ((d \<circ> Suc) j)"
  proof (intro allI impI)
    fix j :: nat assume "j < 10 - (0 + 1)"
    then have "Suc j < 10" by simp
    with assms have "fn (calls w + Suc j) = Some (d (Suc j))" by blast
    then show "fn (calls ?w + j) = Some ((d \<circ> Suc) j)" by simp
  qed
  have "estimate_execution_time fn w = estimate_loop fn 10 (0 + 1) False (?f 0) ?w"
    by (simp add: estimate_execution_time_def estimate_loop.simps [of fn 10 0]
        timed_call_Some [of fn w, OF d0])
  also have "\<dots> = (Inr (fold min (map (\<lambda>j. real_of_int ((d \<circ> Suc) j)) [0..<10 - (0 + 1)]) (?f 0)),
                  ?w\<lparr>calls := calls ?w + (10 - (0 + 1))\<rparr>)"
    by (rule estimate_loop_returns [OF rest])
  also have "fold min (map (\<lambda>j. real_of_int ((d \<circ> Suc) j)) [0..<10 - (0 + 1)]) (?f 0) =
             Min (set (map ?f [0..<10]))"
  proof -
    have "[0..<10] = 0 # map Suc [0..<10 - (0 + 1)]"
      by (metis (no_types) One_nat_def add.left_neutral diff_Suc_1 map_Suc_upt
          upt_conv_Cons zero_less_numeral Suc_pred diff_Suc_Suc minus_nat.diff_0)
    then show ?thesis
      by (simp only: list.map Min.set_eq_fold map_map comp_def)
  qed
  also have "set (map ?f [0..<10]) = ?f ` {..<10}"
    by (simp add: atLeast0LessThan)
  finally show ?thesis by simp
qed

text \<open>
  C2, as the code has it: when the ten calls return, the estimator has invoked the
  callable exactly ten times and returns the minimum of all ten durations. The first
  call's duration is the initial value of the running minimum and is not discarded: the
  estimate never exceeds it.
\<close>

theorem estimate_execution_time_min_of_ten:
  assumes "\<forall>j < 10. fn (calls w + j) = Some (d j)"
  shows "estimate_execution_time fn w =
           (Inr (Min ((\<lambda>j. real_of_int (d j)) ` {..<10})), w\<lparr>calls := calls w + 10\<rparr>)
         \<and> Min ((\<lambda>j. real_of_int (d j)) ` {..<10}) \<le> real_of_int (d 0)"
proof
  show "estimate_execution_time fn w =
          (Inr (Min ((\<lambda>j. real_of_int (d j)) ` {..<10})), w\<lparr>calls := calls w + 10\<rparr>)"
    by (rule estimate_execution_time_returns [OF assms])
  show "Min ((\<lambda>j. real_of_int (d j)) ` {..<10}) \<le> real_of_int (d 0)"
    by (rule Min_le) simp_all
qed

theorem estimate_execution_time_min_of_ten_witness:
  "estimate_execution_time fast_first_call start = (Inr 5, start\<lparr>calls := 10\<rparr>)"
proof -
  have h: "\<forall>j < 10. fast_first_call (calls start + j) = Some (if j = 0 then 5 else 100)"
    by (simp add: fast_first_call_def start_def)
  have "real_of_int 5 \<in> (\<lambda>j. real_of_int (if j = 0 then 5 else 100)) ` {..<10::nat}"
    by (rule image_eqI [where x = 0]) simp_all
  then have least: "Min ((\<lambda>j. real_of_int (if j = 0 then 5 else 100)) ` {..<10::nat}) = 5"
    by (intro Min_eqI) auto
  show ?thesis
    using h estimate_execution_time_min_of_ten [OF h] by (simp add: least start_def)
qed

text \<open>
  C2 as stated fails: with a first call of 5 ns followed by calls of 100 ns the code
  returns 5, where discarding the first call gives 100.
\<close>

theorem estimate_first_call_counterexample:
  "estimate_execution_time fast_first_call start = (Inr 5, start\<lparr>calls := 10\<rparr>)
   \<and> estimate_discarding_first fast_first_call start = (Inr 100, start\<lparr>calls := 10\<rparr>)"
  by (simp add: estimate_execution_time_def estimate_discarding_first_def
      estimate_loop.simps timed_call_def fast_first_call_def start_def std_min_def)

lemma estimate_loop_world:
  "estimate_loop fn n i b r w = (x, w') \<Longrightarrow>
     cursor_shown w' = cursor_shown w \<and> bar w' = bar w"
proof (induction "n - i" arbitrary: i b r w)
  case 0
  then show ?case by (simp add: estimate_loop.simps [of fn n i])
next
  case (Suc k)
  from Suc.hyps(2) have lt: "i < n" and k: "k = n - (i + 1)" by simp_all
  obtain y w1 where tc: "timed_call fn w = (y, w1)" by (cases "timed_call fn w")
  note tw = timed_call_world [OF tc]
  show ?case
  proof (cases y)
    case (Inl e)
    with lt tc Suc.prems tw show ?thesis by (simp add: estimate_loop.simps [of fn n i])
  next
    case (Inr d)
    with lt tc Suc.prems
    have "\<exists>b' r'. estimate_loop fn n (i + 1) b' r' w1 = (x, w')"
      by (auto simp: estimate_loop.simps [of fn n i] Let_def split: if_splits)
    then obtain b' r' where "estimate_loop fn n (i + 1) b' r' w1 = (x, w')" by blast
    from Suc.hyps(1) [OF k this] tw show ?thesis by simp
  qed
qed

lemma estimate_loop_calls:
  "estimate_loop fn n i b r w = (Inr x, w') \<Longrightarrow> calls w' = calls w + (n - i)"
proof (induction "n - i" arbitrary: i b r w)
  case 0
  then show ?case by (simp add: estimate_loop.simps [of fn n i])
next
  case (Suc k)
  from Suc.hyps(2) have lt: "i < n" and k: "k = n - (i + 1)" by simp_all
  obtain y w1 where tc: "timed_call fn w = (y, w1)" by (cases "timed_call fn w")
  note tw = timed_call_world [OF tc]
  show ?case
  proof (cases y)
    case (Inl e)
    with lt tc Suc.prems tw show ?thesis by (simp add: estimate_loop.simps [of fn n i])
  next
    case (Inr d)
    with lt tc Suc.prems
    have "\<exists>b' r'. estimate_loop fn n (i + 1) b' r' w1 = (Inr x, w')"
      by (auto simp: estimate_loop.simps [of fn n i] Let_def split: if_splits)
    then obtain b' r' where "estimate_loop fn n (i + 1) b' r' w1 = (Inr x, w')" by blast
    from Suc.hyps(1) [OF k this] tw lt show ?thesis by auto
  qed
qed

subsection \<open>The iteration planner\<close>

text \<open>
  C3: every estimate falls into exactly one bucket, chosen by strict upper bounds; an
  estimate of exactly 1000 ns gets 32000 iterations and 1000 rounds.
\<close>

theorem set_iterations_buckets:
  fixes e :: real and st :: bench
  defines "policy \<equiv> (num_iterations (set_iterations e st), max_num_runs (set_iterations e st))"
  shows "(e < 100 \<longrightarrow> policy = (128000, 10000))
       \<and> (100 \<le> e \<and> e < 1000 \<longrightarrow> policy = (64000, 5000))
       \<and> (1000 \<le> e \<and> e < 1000000 \<longrightarrow> policy = (32000, 1000))
       \<and> (1000000 \<le> e \<and> e < 1000000000 \<longrightarrow> policy = (4000, 100))
       \<and> (1000000000 \<le> e \<longrightarrow> policy = (1000, 10))"
  by (simp add: policy_def set_iterations_def)

theorem set_iterations_buckets_witness:
  "(1000::real) \<le> 1000 \<and> (1000::real) < 1000000
   \<and> (num_iterations (set_iterations 1000 initial_bench),
      max_num_runs (set_iterations 1000 initial_bench)) = (32000, 1000)"
  using set_iterations_buckets [of 1000 initial_bench] by simp

subsection \<open>One round: measuring and reducing\<close>

lemma benchmark_runs_world:
  "benchmark_runs fn n i ds w = (x, w') \<Longrightarrow>
     cursor_shown w' = cursor_shown w \<and> bar w' = bar w"
proof (induction "n - i" arbitrary: i ds w)
  case 0
  then show ?case by (simp add: benchmark_runs.simps [of fn n i])
next
  case (Suc k)
  from Suc.hyps(2) have lt: "i < n" and k: "k = n - (i + 1)" by simp_all
  obtain y w1 where tc: "timed_call fn w = (y, w1)" by (cases "timed_call fn w")
  note tw = timed_call_world [OF tc]
  show ?case
  proof (cases y)
    case (Inl e)
    with lt tc Suc.prems tw show ?thesis by (simp add: benchmark_runs.simps [of fn n i])
  next
    case (Inr d)
    with lt tc Suc.prems
    have "benchmark_runs fn n (i + 1) (ds @ [real_of_int d]) w1 = (x, w')"
      by (simp add: benchmark_runs.simps [of fn n i])
    from Suc.hyps(1) [OF k this] tw show ?thesis by simp
  qed
qed


lemma benchmark_runs_returns:
  "\<forall>j < n - i. fn (calls w + j) = Some (d j) \<Longrightarrow>
   benchmark_runs fn n i ds w =
     (Inr (ds @ map (\<lambda>j. real_of_int (d j)) [0..<n - i]), w\<lparr>calls := calls w + (n - i)\<rparr>)"
proof (induction "n - i" arbitrary: i ds w d)
  case 0
  then show ?case by (simp add: benchmark_runs.simps [of fn n i])
next
  case (Suc k)
  from Suc.hyps(2) have lt: "i < n" and k: "k = n - (i + 1)" by simp_all
  from Suc.prems Suc.hyps(2) have d0: "fn (calls w) = Some (d 0)" by force
  let ?w = "w\<lparr>calls := Suc (calls w)\<rparr>"
  have rest: "\<forall>j < n - (i + 1). fn (calls ?w + j) = Some ((d \<circ> Suc) j)"
  proof (intro allI impI)
    fix j assume "j < n - (i + 1)"
    then have "Suc j < n - i" by simp
    with Suc.prems have "fn (calls w + Suc j) = Some (d (Suc j))" by blast
    then show "fn (calls ?w + j) = Some ((d \<circ> Suc) j)" by simp
  qed
  have split: "[0..<n - i] = 0 # map Suc [0..<n - (i + 1)]"
    using Suc.hyps(2) k by (metis map_Suc_upt upt_conv_Cons zero_less_Suc)
  have "benchmark_runs fn n i ds w =
          benchmark_runs fn n (i + 1) (ds @ [real_of_int (d 0)]) ?w"
    using lt by (simp add: benchmark_runs.simps [of fn n i] timed_call_Some [of fn w, OF d0])
  also have "\<dots> = (Inr ((ds @ [real_of_int (d 0)])
                         @ map (\<lambda>j. real_of_int ((d \<circ> Suc) j)) [0..<n - (i + 1)]),
                  ?w\<lparr>calls := calls ?w + (n - (i + 1))\<rparr>)"
    by (rule Suc.hyps(1) [OF k rest])
  also have "\<dots> = (Inr (ds @ map (\<lambda>j. real_of_int (d j)) [0..<n - i]),
                  w\<lparr>calls := calls w + (n - i)\<rparr>)"
    using lt by (simp add: split comp_def)
  finally show ?case .
qed

lemma sum_squares_in_range:
  "sz \<le> length ds \<Longrightarrow>
     sum_squares ds m sz i E = Inr (E + (\<Sum>j = i..<sz. (ds ! j - m)\<^sup>2))"
proof (induction "sz - i" arbitrary: i E)
  case 0
  then show ?case by (simp add: sum_squares.simps [of ds m sz i])
next
  case (Suc k)
  from Suc.hyps(2) have lt: "i < sz" and k: "k = sz - (i + 1)" by simp_all
  have "sum_squares ds m sz i E = sum_squares ds m sz (i + 1) (E + (ds ! i - m)\<^sup>2)"
    using lt Suc.prems by (simp add: sum_squares.simps [of ds m sz i])
  also have "\<dots> = Inr (E + (ds ! i - m)\<^sup>2 + (\<Sum>j = i + 1..<sz. (ds ! j - m)\<^sup>2))"
    by (rule Suc.hyps(1) [OF k Suc.prems])
  also have "\<dots> = Inr (E + (\<Sum>j = i..<sz. (ds ! j - m)\<^sup>2))"
    using lt by (simp add: sum.atLeast_Suc_lessThan)
  finally show ?case .
qed

lemma sum_squares_out_of_range:
  "length ds < sz \<Longrightarrow> i \<le> length ds \<Longrightarrow> sum_squares ds m sz i E = Inl OutOfRange"
proof (induction "length ds - i" arbitrary: i E)
  case 0
  then show ?case by (simp add: sum_squares.simps [of ds m sz i])
next
  case (Suc k)
  from Suc.hyps(2) have lt: "i < length ds" and k: "k = length ds - (i + 1)" by simp_all
  have "sum_squares ds m sz i E = sum_squares ds m sz (i + 1) (E + (ds ! i - m)\<^sup>2)"
    using lt Suc.prems by (simp add: sum_squares.simps [of ds m sz i])
  also have "\<dots> = Inl OutOfRange"
    using lt by (intro Suc.hyps(1) [OF k Suc.prems(1)]) simp
  finally show ?case .
qed

lemma sum_nth_squares: "(\<Sum>j = 0..<length ds. (ds ! j - m)\<^sup>2) = (\<Sum>x\<leftarrow>ds. (x - m)\<^sup>2)"
proof -
  have "(\<Sum>x\<leftarrow>ds. (x - m)\<^sup>2) = (\<Sum>j = 0..<length (map (\<lambda>x. (x - m)\<^sup>2) ds). map (\<lambda>x. (x - m)\<^sup>2) ds ! j)"
    by (rule sum_list_sum_nth)
  also have "\<dots> = (\<Sum>j = 0..<length ds. (ds ! j - m)\<^sup>2)"
    by (rule sum.cong) simp_all
  finally show ?thesis by simp
qed

lemma round_statistics_eq:
  assumes "length ds = sz"
  shows "round_statistics ds sz =
     Inr \<lparr>mean = sum_list ds / real sz,
          variance = (\<Sum>x\<leftarrow>ds. (x - sum_list ds / real sz)\<^sup>2) / real sz,
          standard_deviation = sqrt ((\<Sum>x\<leftarrow>ds. (x - sum_list ds / real sz)\<^sup>2) / real sz),
          relative_standard_deviation =
            ld_div (sqrt ((\<Sum>x\<leftarrow>ds. (x - sum_list ds / real sz)\<^sup>2) / real sz) * 100)
              (sum_list ds / real sz)\<rparr>"
proof -
  have "sum_squares ds (sum_list ds / real sz) sz 0 0 =
          Inr (\<Sum>x\<leftarrow>ds. (x - sum_list ds / real sz)\<^sup>2)"
    using assms sum_squares_in_range [of sz ds "sum_list ds / real sz" 0 0]
    by (simp add: sum_nth_squares [symmetric])
  then show ?thesis by (simp add: round_statistics_def Let_def)
qed

subsection \<open>Round statistics\<close>

lemma round_statistics_constant:
  assumes "0 < n"
  shows "round_statistics (replicate n x) n =
     Inr \<lparr>mean = x, variance = 0, standard_deviation = 0,
          relative_standard_deviation = ld_div 0 x\<rparr>"
proof -
  have m: "sum_list (replicate n x) / real n = x"
    using assms by (simp add: sum_list_replicate)
  have sq: "(\<Sum>y\<leftarrow>replicate n x. (y - x)\<^sup>2) = 0"
    by (induction n) simp_all
  have "round_statistics (replicate n x) n =
     Inr \<lparr>mean = x, variance = 0 / real n, standard_deviation = sqrt (0 / real n),
          relative_standard_deviation = ld_div (sqrt (0 / real n) * 100) x\<rparr>"
    by (simp only: round_statistics_eq [OF length_replicate] m sq)
  then show ?thesis by simp
qed

text \<open>
  C5, as the code has it. For a sample of \<open>N > 0\<close> durations the round computes the
  mean as the sum over \<open>N\<close>, the variance as the sum of squared deviations over \<open>N\<close>
  (not \<open>N - 1\<close>), the standard deviation as its square root and, when the mean is not
  zero, the RSD as \<open>standard_deviation * 100 / mean\<close>. A sample of \<open>N\<close> identical
  durations \<open>d\<close> has mean \<open>d\<close> and variance 0, and RSD 0 when \<open>d\<close> is not zero.
\<close>

theorem round_statistics_formulas:
  assumes "length ds = sz" and "0 < sz"
  shows "\<exists>s. round_statistics ds sz = Inr s
     \<and> mean s = sum_list ds / real sz
     \<and> variance s = (\<Sum>x\<leftarrow>ds. (x - mean s)\<^sup>2) / real sz
     \<and> standard_deviation s = sqrt (variance s)
     \<and> (mean s \<noteq> 0 \<longrightarrow>
          relative_standard_deviation s = Finite (standard_deviation s * 100 / mean s))
     \<and> ((\<forall>x \<in> set ds. x = d) \<longrightarrow>
          mean s = d \<and> variance s = 0
          \<and> (d \<noteq> 0 \<longrightarrow> relative_standard_deviation s = Finite 0))"
proof -
  define m where "m = sum_list ds / real sz"
  define v where "v = (\<Sum>x\<leftarrow>ds. (x - m)\<^sup>2) / real sz"
  define s where "s = \<lparr>mean = m, variance = v, standard_deviation = sqrt v,
                       relative_standard_deviation = ld_div (sqrt v * 100) m\<rparr>"
  have eq: "round_statistics ds sz = Inr s"
    using round_statistics_eq [OF assms(1)] by (simp add: s_def v_def m_def)
  have fields: "mean s = m" "variance s = v" "standard_deviation s = sqrt v"
    "relative_standard_deviation s = ld_div (sqrt v * 100) m"
    by (simp_all add: s_def)
  have same: "mean s = d \<and> variance s = 0
          \<and> (d \<noteq> 0 \<longrightarrow> relative_standard_deviation s = Finite 0)"
    if "\<forall>x \<in> set ds. x = d"
  proof -
    from that assms(1) have "ds = replicate sz d"
      by (metis replicate_length_same)
    with round_statistics_constant [OF assms(2), of d] eq
    have "s = \<lparr>mean = d, variance = 0, standard_deviation = 0,
          relative_standard_deviation = ld_div 0 d\<rparr>"
      by simp
    then show ?thesis by (simp add: ld_div_def)
  qed
  have "mean s = sum_list ds / real sz" by (simp add: fields m_def)
  moreover have "variance s = (\<Sum>x\<leftarrow>ds. (x - mean s)\<^sup>2) / real sz"
    by (simp add: fields v_def)
  moreover have "standard_deviation s = sqrt (variance s)" by (simp add: fields)
  moreover have "mean s \<noteq> 0 \<longrightarrow>
          relative_standard_deviation s = Finite (standard_deviation s * 100 / mean s)"
    by (simp add: fields ld_div_def)
  ultimately show ?thesis using eq same by blast
qed

theorem round_statistics_formulas_witness:
  "round_statistics [50, 150, 50, 150] 4 =
     Inr \<lparr>mean = 100, variance = 2500, standard_deviation = 50,
          relative_standard_deviation = Finite 50\<rparr>
   \<and> round_statistics [7, 7, 7] 3 =
     Inr \<lparr>mean = 7, variance = 0, standard_deviation = 0,
          relative_standard_deviation = Finite 0\<rparr>"
proof -
  have sq: "sqrt 2500 = 50"
    by (rule real_sqrt_unique) simp_all
  have h1: "length [50, 150, 50, 150 :: real] = 4" and h2: "(0::nat) < 4" by simp_all
  from round_statistics_formulas [OF h1 h2, of 0]
  obtain s where s: "round_statistics [50, 150, 50, 150] 4 = Inr s"
     "mean s = sum_list [50, 150, 50, 150] / real 4"
     "variance s = (\<Sum>x\<leftarrow>[50, 150, 50, 150]. (x - mean s)\<^sup>2) / real 4"
     "standard_deviation s = sqrt (variance s)"
     "mean s \<noteq> 0 \<longrightarrow>
          relative_standard_deviation s = Finite (standard_deviation s * 100 / mean s)"
    by blast
  from s(2) have m: "mean s = 100" by simp
  from s(3) m have v: "variance s = 2500" by simp
  from s(4) v sq have sd: "standard_deviation s = 50" by simp
  from s(5) m sd have r: "relative_standard_deviation s = Finite 50" by simp
  have a: "s = \<lparr>mean = 100, variance = 2500, standard_deviation = 50,
          relative_standard_deviation = Finite 50\<rparr>"
    using m v sd r by (intro statistics.equality) simp_all
  have g1: "length [7, 7, 7 :: real] = 3" and g2: "(0::nat) < 3" by simp_all
  from round_statistics_formulas [OF g1 g2, of 7]
  obtain t where t: "round_statistics [7, 7, 7] 3 = Inr t"
     "standard_deviation t = sqrt (variance t)"
     "(\<forall>x \<in> set [7, 7, 7]. x = (7::real)) \<longrightarrow>
          mean t = 7 \<and> variance t = 0 \<and> ((7::real) \<noteq> 0 \<longrightarrow> relative_standard_deviation t = Finite 0)"
    by blast
  have b: "t = \<lparr>mean = 7, variance = 0, standard_deviation = 0,
          relative_standard_deviation = Finite 0\<rparr>"
    using t(2,3) by (intro statistics.equality) simp_all
  from s(1) a t(1) b show ?thesis by simp
qed

text \<open>
  C5 as stated fails for identical durations of 0 ns: the variance is 0 but the RSD is
  the quotient \<open>0 / 0\<close>, which is NaN and not 0.
\<close>

theorem identical_zero_durations_counterexample:
  "round_statistics (replicate 128000 0) 128000 =
     Inr \<lparr>mean = 0, variance = 0, standard_deviation = 0, relative_standard_deviation = NaN\<rparr>
   \<and> NaN \<noteq> Finite 0"
  using round_statistics_constant [of 128000 0] by (simp add: ld_div_def)

subsection \<open>The convergence record\<close>

lemma ld_le_trans: "ld_le a b \<Longrightarrow> ld_le b c \<Longrightarrow> ld_le a c"
  by (cases a; cases b; cases c) simp_all

lemma std_min_ld_le:
  "rsd \<noteq> NaN \<Longrightarrow> l \<noteq> NaN \<Longrightarrow> ld_le (std_min_ld rsd l) l \<and> std_min_ld rsd l \<noteq> NaN"
  by (cases rsd; cases l) (simp_all add: std_min_ld_def)

lemma lowest_rsd_save_record:
  "lowest_rsd (save_record rsd m st) = std_min_ld rsd (lowest_rsd st)"
  by (simp add: save_record_def Let_def)

lemma ld_less_irrefl: "\<not> ld_less a a"
  by (cases a) simp_all

lemma ld_less_asym: "ld_less a b \<Longrightarrow> \<not> ld_less b a"
  by (cases a; cases b) simp_all

lemma save_record_updates:
  "ld_less rsd (lowest_rsd st) \<Longrightarrow>
     mean_lowest_rsd (save_record rsd m st) = m
     \<and> num_iterations_lowest_rsd (save_record rsd m st) = num_iterations st"
  by (simp add: save_record_def Let_def std_min_ld_def ld_less_asym)

lemma save_record_retains:
  "\<not> ld_less rsd (lowest_rsd st) \<Longrightarrow>
     mean_lowest_rsd (save_record rsd m st) = mean_lowest_rsd st
     \<and> num_iterations_lowest_rsd (save_record rsd m st) = num_iterations_lowest_rsd st"
  by (simp add: save_record_def Let_def std_min_ld_def ld_less_irrefl)

lemma records_after_below:
  "\<forall>r \<in> set rounds. fst r \<noteq> NaN \<Longrightarrow> lowest_rsd st \<noteq> NaN \<Longrightarrow>
     \<forall>s \<in> set (records_after rounds st). ld_le (lowest_rsd s) (lowest_rsd st)"
proof (induction rounds arbitrary: st)
  case Nil
  then show ?case by simp
next
  case (Cons r rounds)
  obtain rsd m n where r: "r = (rsd, m, n)" by (cases r)
  let ?st = "save_record rsd m (st\<lparr>num_iterations := n\<rparr>)"
  from Cons.prems r have "rsd \<noteq> NaN" by simp
  from std_min_ld_le [OF this Cons.prems(2)]
  have step: "ld_le (lowest_rsd ?st) (lowest_rsd st)" and ok: "lowest_rsd ?st \<noteq> NaN"
    by (simp_all add: lowest_rsd_save_record)
  from Cons.prems have "\<forall>r \<in> set rounds. fst r \<noteq> NaN" by simp
  from Cons.IH [OF this ok]
  have "\<forall>s \<in> set (records_after rounds ?st). ld_le (lowest_rsd s) (lowest_rsd st)"
    using step by (blast intro: ld_le_trans)
  with step r show ?case by (simp add: Let_def)
qed

lemma records_after_sorted:
  "\<forall>r \<in> set rounds. fst r \<noteq> NaN \<Longrightarrow> lowest_rsd st \<noteq> NaN \<Longrightarrow>
     sorted_wrt (\<lambda>earlier later. ld_le later earlier)
       (map lowest_rsd (st # records_after rounds st))"
proof (induction rounds arbitrary: st)
  case Nil
  then show ?case by simp
next
  case (Cons r rounds)
  obtain rsd m n where r: "r = (rsd, m, n)" by (cases r)
  let ?st = "save_record rsd m (st\<lparr>num_iterations := n\<rparr>)"
  from Cons.prems r have "rsd \<noteq> NaN" by simp
  from std_min_ld_le [OF this Cons.prems(2)]
  have ok: "lowest_rsd ?st \<noteq> NaN"
    by (simp_all add: lowest_rsd_save_record)
  from Cons.prems have rest: "\<forall>r \<in> set rounds. fst r \<noteq> NaN" by simp
  have tail: "sorted_wrt (\<lambda>earlier later. ld_le later earlier)
       (map lowest_rsd (?st # records_after rounds ?st))"
    by (rule Cons.IH [OF rest ok])
  have head: "\<forall>s \<in> set (records_after (r # rounds) st). ld_le (lowest_rsd s) (lowest_rsd st)"
    by (rule records_after_below [OF Cons.prems])
  from head tail r show ?case by (simp add: Let_def)
qed

lemma records_after_untouched:
  "\<forall>r \<in> set rounds. fst r \<noteq> NaN \<and> \<not> ld_less (fst r) (Finite 100) \<Longrightarrow>
   lowest_rsd st = Finite 100 \<Longrightarrow>
     \<forall>s \<in> set (records_after rounds st).
        lowest_rsd s = Finite 100
      \<and> mean_lowest_rsd s = mean_lowest_rsd st
      \<and> num_iterations_lowest_rsd s = num_iterations_lowest_rsd st"
proof (induction rounds arbitrary: st)
  case Nil
  then show ?case by simp
next
  case (Cons r rounds)
  obtain rsd m n where r: "r = (rsd, m, n)" by (cases r)
  let ?st = "save_record rsd m (st\<lparr>num_iterations := n\<rparr>)"
  from Cons.prems r have nn: "rsd \<noteq> NaN" and ge: "\<not> ld_less rsd (Finite 100)" by simp_all
  have low: "lowest_rsd ?st = Finite 100"
    using nn ge Cons.prems(2) by (cases rsd) (simp_all add: lowest_rsd_save_record std_min_ld_def)
  have keep: "mean_lowest_rsd ?st = mean_lowest_rsd st
      \<and> num_iterations_lowest_rsd ?st = num_iterations_lowest_rsd st"
    using save_record_retains [of rsd "st\<lparr>num_iterations := n\<rparr>" m] ge Cons.prems(2) by simp
  from Cons.prems have rest: "\<forall>r \<in> set rounds. fst r \<noteq> NaN \<and> \<not> ld_less (fst r) (Finite 100)"
    by simp
  from Cons.IH [OF rest low] low keep r show ?case by (simp add: Let_def)
qed

text \<open>
  Over rounds none of whose RSD is NaN, started from a \<open>lowest_rsd\<close> that is not NaN (it
  starts at 100), \<open>lowest_rsd\<close> is a running minimum: after any round it is at most what
  it was after every earlier round. In every case the stored mean and iteration count
  are overwritten exactly when the round's RSD compares strictly below the current
  \<open>lowest_rsd\<close>; otherwise, so also on a tie, the earlier record stays.
\<close>

lemma lowest_rsd_running_minimum:
  "((\<forall>r \<in> set rounds. fst r \<noteq> NaN) \<and> lowest_rsd st \<noteq> NaN \<longrightarrow>
      sorted_wrt (\<lambda>earlier later. ld_le later earlier)
        (map lowest_rsd (st # records_after rounds st)))
   \<and> (ld_less rsd (lowest_rsd st) \<longrightarrow>
        mean_lowest_rsd (save_record rsd m st) = m
        \<and> num_iterations_lowest_rsd (save_record rsd m st) = num_iterations st)
   \<and> (\<not> ld_less rsd (lowest_rsd st) \<longrightarrow>
        mean_lowest_rsd (save_record rsd m st) = mean_lowest_rsd st
        \<and> num_iterations_lowest_rsd (save_record rsd m st) = num_iterations_lowest_rsd st)"
  using records_after_sorted [of rounds st] save_record_updates [of rsd st m]
    save_record_retains [of rsd st m]
  by blast

text \<open>
  When no round's RSD is NaN and none is strictly below 100, the record is never
  written: after every round the stored mean and iteration count are still 0 and
  \<open>lowest_rsd\<close> is still 100.
\<close>

lemma record_untouched_without_lower_rsd:
  assumes "\<forall>r \<in> set rounds. fst r \<noteq> NaN \<and> \<not> ld_less (fst r) (Finite 100)"
  shows "\<forall>s \<in> set (records_after rounds initial_bench).
           mean_lowest_rsd s = 0 \<and> num_iterations_lowest_rsd s = 0
         \<and> lowest_rsd s = Finite 100"
  using records_after_untouched [OF assms, of initial_bench]
  by (simp add: initial_bench_def)

subsection \<open>The sampling loop\<close>

lemma set_iterations_other_fields:
  "num_runs (set_iterations e st) = num_runs st"
  "lowest_rsd (set_iterations e st) = lowest_rsd st"
  "mean_lowest_rsd (set_iterations e st) = mean_lowest_rsd st"
  "num_iterations_lowest_rsd (set_iterations e st) = num_iterations_lowest_rsd st"
  "durations (set_iterations e st) = durations st"
  by (simp_all add: set_iterations_def)

lemma max_num_runs_bounded: "max_num_runs (set_iterations e st) \<le> 10000"
  by (simp add: set_iterations_def)

lemma num_iterations_positive: "0 < num_iterations (set_iterations e st)"
  by (simp add: set_iterations_def)

lemma save_record_other_fields:
  "num_runs (save_record rsd m st) = num_runs st"
  "max_num_runs (save_record rsd m st) = max_num_runs st"
  "num_iterations (save_record rsd m st) = num_iterations st"
  "durations (save_record rsd m st) = durations st"
  by (simp_all add: save_record_def Let_def)

lemma update_iterations_world:
  "update_iterations fn st w = (x, w') \<Longrightarrow>
     cursor_shown w' = cursor_shown w \<and> bar w' = bar w"
  by (auto simp: update_iterations_def estimate_execution_time_def
      split: prod.splits sum.splits dest: estimate_loop_world)

lemma update_iterations_Inr:
  "update_iterations fn st w = (Inr st', w') \<Longrightarrow>
     \<exists>e. estimate_execution_time fn w = (Inr e, w') \<and> st' = set_iterations e st
       \<and> calls w' = calls w + 10"
  by (auto simp: update_iterations_def estimate_execution_time_def
      split: prod.splits sum.splits dest: estimate_loop_calls)

lemma sampling_round_world:
  "sampling_round fn st w = (x, w') \<Longrightarrow> cursor_shown w' = cursor_shown w"
  by (auto simp: sampling_round_def Let_def bar_do_def
      split: prod.splits sum.splits
      dest!: update_iterations_world benchmark_runs_world)

lemma sampling_round_Inr:
  assumes "sampling_round fn st w = (Inr st', w')"
  shows "\<exists>e w1 ds w3 s.
           estimate_execution_time fn w = (Inr e, w1) \<and> calls w1 = calls w + 10
         \<and> benchmark_runs fn (num_iterations (set_iterations e st)) 0 (durations st)
              (bar_do (SetMaxProgress (max_num_runs (set_iterations e st))) w1) = (Inr ds, w3)
         \<and> round_statistics ds (num_iterations (set_iterations e st)) = Inr s
         \<and> st' = save_record (relative_standard_deviation s) (mean s)
                   ((set_iterations e st)\<lparr>durations := ds\<rparr>)
         \<and> w' = bar_do (SetPostfixText (num_runs st') (max_num_runs st')
                   (mean_lowest_rsd st') (lowest_rsd st') (num_iterations_lowest_rsd st'))
                  (bar_do (SetProgress (num_runs st')) w3)"
  using assms
  by (auto simp: sampling_round_def Let_def set_iterations_other_fields
      split: prod.splits sum.splits dest!: update_iterations_Inr)

lemma sampling_round_counters:
  assumes "sampling_round fn st w = (Inr st', w')"
  shows "num_runs st' = num_runs st" and "max_num_runs st' \<le> 10000"
  using sampling_round_Inr [OF assms]
  by (auto simp: save_record_other_fields set_iterations_other_fields max_num_runs_bounded)

lemma sampling_loop_induct:
  assumes step: "\<And>st w.
     (\<And>st' w'. sampling_round fn st w = (Inr st', w') \<Longrightarrow> \<not> max_num_runs st' \<le> num_runs st' \<Longrightarrow>
        P (st'\<lparr>durations := [], num_runs := num_runs st' + 1\<rparr>) w') \<Longrightarrow> P st w"
  shows "P st w"
proof (induction "10000 - num_runs st" arbitrary: st w rule: less_induct)
  case less
  show ?case
    apply (rule step)
    apply (rule less)
    apply (frule sampling_round_counters(1))
    apply (drule sampling_round_counters(2))
    apply simp
    done
qed

lemma sampling_loop_rule:
  assumes init: "I st w"
    and raised: "\<And>st w e w'. I st w \<Longrightarrow> sampling_round fn st w = (Inl e, w') \<Longrightarrow> R e w'"
    and left: "\<And>st w st' w'. I st w \<Longrightarrow> sampling_round fn st w = (Inr st', w') \<Longrightarrow>
                 max_num_runs st' \<le> num_runs st' \<Longrightarrow> Q st' (bar_do MarkAsCompleted w')"
    and again: "\<And>st w st' w'. I st w \<Longrightarrow> sampling_round fn st w = (Inr st', w') \<Longrightarrow>
                 \<not> max_num_runs st' \<le> num_runs st' \<Longrightarrow>
                 I (st'\<lparr>durations := [], num_runs := num_runs st' + 1\<rparr>) w'"
  shows "\<exists>x w''. sampling_loop fn st w = Some (x, w'')
           \<and> (case x of Inl e \<Rightarrow> R e w'' | Inr st'' \<Rightarrow> Q st'' w'')"
  using init
proof (induction st w rule: sampling_loop_induct [where fn = fn])
  case (1 st w)
  obtain x w' where r: "sampling_round fn st w = (x, w')" by (cases "sampling_round fn st w")
  show ?case
  proof (cases x)
    case (Inl e)
    with r raised [OF "1.prems"] show ?thesis
      by (subst sampling_loop.simps) simp
  next
    case (Inr st')
    show ?thesis
    proof (cases "max_num_runs st' \<le> num_runs st'")
      case True
      with r Inr left [OF "1.prems"] show ?thesis
        by (subst sampling_loop.simps) simp
    next
      case False
      from r Inr have r': "sampling_round fn st w = (Inr st', w')" by simp
      from "1.IH" [OF r' False again [OF "1.prems" r' False]]
      show ?thesis using r' False
        by (subst sampling_loop.simps) simp
    qed
  qed
qed

lemma sampling_loop_returns: "\<exists>r. sampling_loop fn st w = Some r"
  using sampling_loop_rule [of "\<lambda>_ _. True" st w fn "\<lambda>_ _. True" "\<lambda>_ _. True"]
  by auto

lemma progress_shown_append:
  "progress_shown (xs @ ys) = progress_shown xs @ progress_shown ys"
  by (induction xs rule: progress_shown.induct) simp_all

lemma throws_in_loop_run:
  "benchmark [] throws_in_loop start =
     Some (Inl CallableThrew, \<lparr>calls = 11, cursor_shown = False, bar = [BlockProgressBar [] 10000]\<rparr>)"
  by (simp add: benchmark_def update_iterations_def estimate_execution_time_def
      estimate_loop.simps timed_call_def throws_in_loop_def start_def std_min_def
      set_iterations_def initial_bench_def show_console_cursor_def bar_do_def
      sampling_loop.simps [of throws_in_loop] sampling_round_def)

text \<open>
  C9: the loop leaves for every callable, every state and every console. The round
  counter grows by one in each round that does not leave, and every round budget the
  planner can set is at most 10000, so the exit test succeeds after at most 10001
  rounds; the constructor returns or propagates the callable's exception.
\<close>

theorem sampling_loop_terminates:
  "(\<exists>r. sampling_loop fn st w = Some r) \<and> (\<exists>r. benchmark name fn w = Some r)
   \<and> max_num_runs (set_iterations e st) \<le> 10000"
proof (intro conjI)
  show "\<exists>r. sampling_loop fn st w = Some r"
    by (rule sampling_loop_returns)
  show "\<exists>r. benchmark name fn w = Some r"
  proof (cases "update_iterations fn initial_bench w")
    case (Pair x w1)
    show ?thesis
    proof (cases x)
      case (Inl e)
      with Pair show ?thesis by (simp add: benchmark_def)
    next
      case (Inr st0)
      obtain y w4 where
        "sampling_loop fn st0
           (bar_do (BlockProgressBar name (max_num_runs st0)) (show_console_cursor False w1))
         = Some (y, w4)"
        using sampling_loop_returns by (metis surj_pair)
      with Pair Inr show ?thesis
        by (cases y) (simp_all add: benchmark_def Let_def)
    qed
  qed
  show "max_num_runs (set_iterations e st) \<le> 10000"
    by (rule max_num_runs_bounded)
qed

subsection \<open>The console cursor\<close>

lemma sampling_loop_cursor:
  assumes "\<not> cursor_shown w"
  shows "\<exists>x w'. sampling_loop fn st w = Some (x, w') \<and> \<not> cursor_shown w'"
proof -
  have "\<exists>x w''. sampling_loop fn st w = Some (x, w'')
          \<and> (case x of Inl e \<Rightarrow> \<not> cursor_shown w'' | Inr st'' \<Rightarrow> \<not> cursor_shown w'')"
    by (rule sampling_loop_rule [where I = "\<lambda>_ w. \<not> cursor_shown w"])
      (use assms in \<open>auto simp: bar_do_def dest: sampling_round_world\<close>)
  then show ?thesis by (auto split: sum.splits)
qed

text \<open>
  C7, as the code has it. The cursor is hidden after the planning that precedes the loop
  and shown again after the loop has left normally. No handler surrounds the loop: an
  exception raised inside it leaves the constructor with the cursor hidden, and an
  exception raised by the first planning leaves the cursor as it was.
\<close>

theorem cursor_after_benchmark:
  assumes "benchmark name fn w = Some (x, w')"
  shows "(\<forall>st'. x = Inr st' \<longrightarrow> cursor_shown w')
       \<and> (\<forall>e st0 w0. x = Inl e \<and> update_iterations fn initial_bench w = (Inr st0, w0)
             \<longrightarrow> \<not> cursor_shown w')
       \<and> (\<forall>e e0 w0. x = Inl e \<and> update_iterations fn initial_bench w = (Inl e0, w0)
             \<longrightarrow> cursor_shown w' = cursor_shown w)"
proof (cases "update_iterations fn initial_bench w")
  case (Pair y w1)
  show ?thesis
  proof (cases y)
    case (Inl e0)
    with Pair assms update_iterations_world [of fn initial_bench w y w1]
    show ?thesis by (auto simp: benchmark_def)
  next
    case (Inr st0)
    let ?w3 = "bar_do (BlockProgressBar name (max_num_runs st0)) (show_console_cursor False w1)"
    have "\<not> cursor_shown ?w3" by (simp add: bar_do_def show_console_cursor_def)
    from sampling_loop_cursor [OF this]
    obtain z w4 where loop: "sampling_loop fn st0 ?w3 = Some (z, w4)" and hid: "\<not> cursor_shown w4"
      by blast
    from assms Pair Inr loop hid show ?thesis
      by (cases z) (auto simp: benchmark_def Let_def show_console_cursor_def)
  qed
qed

theorem cursor_after_benchmark_witness:
  "\<not> cursor_shown \<lparr>calls = 11, cursor_shown = False, bar = [BlockProgressBar [] 10000]\<rparr>
   \<and> benchmark [] throws_in_loop start =
       Some (Inl CallableThrew,
             \<lparr>calls = 11, cursor_shown = False, bar = [BlockProgressBar [] 10000]\<rparr>)"
proof -
  obtain st0 w0 where "update_iterations throws_in_loop initial_bench start = (Inr st0, w0)"
    by (simp add: update_iterations_def estimate_execution_time_def estimate_loop.simps
        timed_call_def throws_in_loop_def start_def)
  with cursor_after_benchmark [OF throws_in_loop_run] throws_in_loop_run
  show ?thesis by blast
qed

text \<open>
  C7 as stated fails: a callable that throws in its first call inside the loop leaves
  the constructor by the exception with the cursor hidden, on a console whose cursor
  was shown.
\<close>

theorem cursor_left_hidden_counterexample:
  "cursor_shown start
   \<and> benchmark [] throws_in_loop start =
       Some (Inl CallableThrew,
             \<lparr>calls = 11, cursor_shown = False, bar = [BlockProgressBar [] 10000]\<rparr>)
   \<and> \<not> cursor_shown \<lparr>calls = 11, cursor_shown = False, bar = [BlockProgressBar [] 10000]\<rparr>"
  using throws_in_loop_run by (simp add: start_def)

subsection \<open>Rounds of a callable that returns\<close>

lemma set_iterations_policy:
  "num_iterations (set_iterations e st) = num_iterations (set_iterations e initial_bench)"
  "max_num_runs (set_iterations e st) = max_num_runs (set_iterations e initial_bench)"
  by (simp_all add: set_iterations_def)

lemma sampling_round_total:
  fixes d :: "nat \<Rightarrow> int" and w :: world and st :: bench
  defines "e \<equiv> Min ((\<lambda>j. real_of_int (d (calls w + j))) ` {..<10})"
  defines "n \<equiv> num_iterations (set_iterations e st)"
  defines "ds \<equiv> map (\<lambda>j. real_of_int (d (calls w + 10 + j))) [0..<n]"
  assumes fn: "\<And>k. fn k = Some (d k)" and empty: "durations st = []"
  shows "\<exists>s st'.
      round_statistics ds n = Inr s
    \<and> st' = save_record (relative_standard_deviation s) (mean s)
              ((set_iterations e st)\<lparr>durations := ds\<rparr>)
    \<and> sampling_round fn st w =
        (Inr st',
         w\<lparr>calls := calls w + 10 + n,
           bar := bar w @
             [SetMaxProgress (max_num_runs st'), SetProgress (num_runs st),
              SetPostfixText (num_runs st) (max_num_runs st') (mean_lowest_rsd st')
                (lowest_rsd st') (num_iterations_lowest_rsd st')]\<rparr>)"
proof -
  let ?st1 = "set_iterations e st"
  let ?w1 = "w\<lparr>calls := calls w + 10\<rparr>"
  let ?w2 = "bar_do (SetMaxProgress (max_num_runs ?st1)) ?w1"
  have est: "estimate_execution_time fn w = (Inr e, ?w1)"
    unfolding e_def by (rule estimate_execution_time_returns) (simp add: fn)
  then have ui: "update_iterations fn st w = (Inr ?st1, ?w1)"
    by (simp add: update_iterations_def)
  have "benchmark_runs fn n 0 [] ?w2 =
          (Inr ([] @ map (\<lambda>j. real_of_int (d (calls ?w2 + j))) [0..<n - 0]),
           ?w2\<lparr>calls := calls ?w2 + (n - 0)\<rparr>)"
    by (rule benchmark_runs_returns) (simp add: fn)
  then have br: "benchmark_runs fn n 0 [] ?w2 = (Inr ds, ?w2\<lparr>calls := calls ?w2 + n\<rparr>)"
    by (simp add: ds_def bar_do_def add.assoc)
  have "length ds = n" by (simp add: ds_def)
  from round_statistics_eq [OF this]
  obtain s where rs: "round_statistics ds n = Inr s" by blast
  let ?st' = "save_record (relative_standard_deviation s) (mean s) (?st1\<lparr>durations := ds\<rparr>)"
  have "sampling_round fn st w =
        (Inr ?st',
         w\<lparr>calls := calls w + 10 + n,
           bar := bar w @
             [SetMaxProgress (max_num_runs ?st'), SetProgress (num_runs st),
              SetPostfixText (num_runs st) (max_num_runs ?st') (mean_lowest_rsd ?st')
                (lowest_rsd ?st') (num_iterations_lowest_rsd ?st')]\<rparr>)"
    using ui br rs empty
    by (simp add: sampling_round_def Let_def n_def [symmetric] set_iterations_other_fields
        save_record_other_fields bar_do_def)
  with rs show ?thesis by blast
qed

lemma constant_round:
  fixes c :: int and st :: bench
  defines "st1 \<equiv> set_iterations (real_of_int c) st"
  defines "st' \<equiv> save_record (ld_div 0 (real_of_int c)) (real_of_int c)
                   (st1\<lparr>durations := replicate (num_iterations st1) (real_of_int c)\<rparr>)"
  assumes empty: "durations st = []"
  shows "sampling_round (constant_callable c) st w =
        (Inr st',
         w\<lparr>calls := calls w + 10 + num_iterations st1,
           bar := bar w @
             [SetMaxProgress (max_num_runs st1), SetProgress (num_runs st),
              SetPostfixText (num_runs st) (max_num_runs st1) (mean_lowest_rsd st')
                (lowest_rsd st') (num_iterations_lowest_rsd st')]\<rparr>)"
proof -
  have "{..<10::nat} \<noteq> {}" by (simp add: lessThan_empty_iff)
  then have e: "Min ((\<lambda>j. real_of_int ((\<lambda>_. c) (calls w + j))) ` {..<10::nat}) = real_of_int c"
    by (simp add: image_constant_conv)
  have ds: "map (\<lambda>j. real_of_int ((\<lambda>_. c) (calls w + 10 + j))) [0..<n] = replicate n (real_of_int c)"
    for n by (simp add: map_replicate_const)
  have pos: "0 < num_iterations st1" by (simp add: st1_def num_iterations_positive)
  from sampling_round_total [of "constant_callable c" "\<lambda>_. c" st w, unfolded e ds, OF _ empty]
  obtain s where
    rs: "round_statistics (replicate (num_iterations st1) (real_of_int c)) (num_iterations st1) = Inr s"
    and r: "sampling_round (constant_callable c) st w =
        (Inr (save_record (relative_standard_deviation s) (mean s)
              (st1\<lparr>durations := replicate (num_iterations st1) (real_of_int c)\<rparr>)),
         w\<lparr>calls := calls w + 10 + num_iterations st1,
           bar := bar w @
             [SetMaxProgress (max_num_runs (save_record (relative_standard_deviation s) (mean s)
              (st1\<lparr>durations := replicate (num_iterations st1) (real_of_int c)\<rparr>))), SetProgress (num_runs st),
              SetPostfixText (num_runs st) (max_num_runs (save_record (relative_standard_deviation s) (mean s)
              (st1\<lparr>durations := replicate (num_iterations st1) (real_of_int c)\<rparr>)))
               (mean_lowest_rsd (save_record (relative_standard_deviation s) (mean s)
              (st1\<lparr>durations := replicate (num_iterations st1) (real_of_int c)\<rparr>)))
                (lowest_rsd (save_record (relative_standard_deviation s) (mean s)
              (st1\<lparr>durations := replicate (num_iterations st1) (real_of_int c)\<rparr>)))
                 (num_iterations_lowest_rsd (save_record (relative_standard_deviation s) (mean s)
              (st1\<lparr>durations := replicate (num_iterations st1) (real_of_int c)\<rparr>)))]\<rparr>)"
    unfolding st1_def by (auto simp: constant_callable_def)
  from rs round_statistics_constant [OF pos, of "real_of_int c"]
  have "relative_standard_deviation s = ld_div 0 (real_of_int c)" "mean s = real_of_int c"
    by auto
  with r show ?thesis
    by (simp add: st'_def save_record_other_fields)
qed

lemma constant_loop_counts:
  fixes c :: int
  defines "n \<equiv> num_iterations (set_iterations (real_of_int c) initial_bench)"
  defines "m \<equiv> max_num_runs (set_iterations (real_of_int c) initial_bench)"
  assumes empty: "durations st = []" and le: "num_runs st \<le> m"
  shows "\<exists>st' w'. sampling_loop (constant_callable c) st w = Some (Inr st', w')
     \<and> num_runs st' = m \<and> max_num_runs st' = m \<and> num_iterations st' = n
     \<and> progress_shown (bar w') = progress_shown (bar w) @ [num_runs st..<m + 1]
     \<and> calls w' = calls w + (m + 1 - num_runs st) * (10 + n)
     \<and> cursor_shown w' = cursor_shown w"
proof -
  let ?I = "\<lambda>s v. durations s = [] \<and> num_runs st \<le> num_runs s \<and> num_runs s \<le> m
     \<and> progress_shown (bar v) = progress_shown (bar w) @ [num_runs st..<num_runs s]
     \<and> calls v = calls w + (num_runs s - num_runs st) * (10 + n)
     \<and> cursor_shown v = cursor_shown w"
  let ?Q = "\<lambda>s v. num_runs s = m \<and> max_num_runs s = m \<and> num_iterations s = n
     \<and> progress_shown (bar v) = progress_shown (bar w) @ [num_runs st..<m + 1]
     \<and> calls v = calls w + (m + 1 - num_runs st) * (10 + n)
     \<and> cursor_shown v = cursor_shown w"
  have pol: "num_iterations (set_iterations (real_of_int c) s) = n"
    "max_num_runs (set_iterations (real_of_int c) s) = m" for s
    by (simp_all add: n_def m_def set_iterations_policy [of _ s])
  have "\<exists>x w''. sampling_loop (constant_callable c) st w = Some (x, w'')
           \<and> (case x of Inl e \<Rightarrow> False | Inr st'' \<Rightarrow> ?Q st'' w'')"
  proof (rule sampling_loop_rule [where I = ?I])
    show "?I st w" using empty le by simp
  next
    fix s v e v'
    assume "?I s v" and "sampling_round (constant_callable c) s v = (Inl e, v')"
    then show False by (simp add: constant_round)
  next
    fix s v s' v'
    assume I: "?I s v" and r: "sampling_round (constant_callable c) s v = (Inr s', v')"
      and stop: "max_num_runs s' \<le> num_runs s'"
    from I have e: "durations s = []" by simp
    from r [unfolded constant_round [OF e]]
    have s': "num_runs s' = num_runs s" "max_num_runs s' = m" "num_iterations s' = n"
      and v': "v' = v\<lparr>calls := calls v + 10 + n,
           bar := bar v @
             [SetMaxProgress m, SetProgress (num_runs s),
              SetPostfixText (num_runs s) m (mean_lowest_rsd s')
                (lowest_rsd s') (num_iterations_lowest_rsd s')]\<rparr>"
      by (auto simp: save_record_other_fields set_iterations_other_fields pol)
    from stop s' I have eq: "num_runs s = m" by simp
    have "(m + 1 - num_runs st) * (10 + n) = (m - num_runs st) * (10 + n) + (10 + n)"
      using le by (simp add: Suc_diff_le)
    with I s' eq v' le show "?Q s' (bar_do MarkAsCompleted v')"
      by (simp add: bar_do_def progress_shown_append)
  next
    fix s v s' v'
    assume I: "?I s v" and r: "sampling_round (constant_callable c) s v = (Inr s', v')"
      and go: "\<not> max_num_runs s' \<le> num_runs s'"
    from I have e: "durations s = []" by simp
    from r [unfolded constant_round [OF e]]
    have s': "num_runs s' = num_runs s" "max_num_runs s' = m" "num_iterations s' = n"
      and v': "v' = v\<lparr>calls := calls v + 10 + n,
           bar := bar v @
             [SetMaxProgress m, SetProgress (num_runs s),
              SetPostfixText (num_runs s) m (mean_lowest_rsd s')
                (lowest_rsd s') (num_iterations_lowest_rsd s')]\<rparr>"
      by (auto simp: save_record_other_fields set_iterations_other_fields pol)
    from go s' have lt: "num_runs s < m" by simp
    from I have ge: "num_runs st \<le> num_runs s" by simp
    have "(Suc (num_runs s) - num_runs st) * (10 + n)
            = (num_runs s - num_runs st) * (10 + n) + (10 + n)"
      using ge by (simp add: Suc_diff_le)
    with I s' lt v' ge
    show "?I (s'\<lparr>durations := [], num_runs := num_runs s' + 1\<rparr>) v'"
      by (simp add: progress_shown_append)
  qed
  then obtain x w'' where l: "sampling_loop (constant_callable c) st w = Some (x, w'')"
    and q: "case x of Inl e \<Rightarrow> False | Inr st'' \<Rightarrow> ?Q st'' w''"
    by blast
  show ?thesis
  proof (cases x)
    case (Inl e)
    with q show ?thesis by simp
  next
    case (Inr s'')
    with q have "?Q s'' w''" by simp
    with l Inr show ?thesis by blast
  qed
qed

subsection \<open>Runs of a callable of constant duration\<close>

lemma constant_update_iterations:
  "update_iterations (constant_callable c) st w =
     (Inr (set_iterations (real_of_int c) st), w\<lparr>calls := calls w + 10\<rparr>)"
proof -
  have "{..<10::nat} \<noteq> {}" by (simp add: lessThan_empty_iff)
  then have e: "Min ((\<lambda>j::nat. real_of_int c) ` {..<10}) = real_of_int c"
    by (simp add: image_constant_conv)
  have "estimate_execution_time (constant_callable c) w =
          (Inr (Min ((\<lambda>j::nat. real_of_int c) ` {..<10})), w\<lparr>calls := calls w + 10\<rparr>)"
    by (rule estimate_execution_time_returns) (simp add: constant_callable_def)
  then show ?thesis by (simp add: update_iterations_def e)
qed

lemma ld_less_NaN: "\<not> ld_less a NaN"
  by (cases a) simp_all

lemma save_record_NaN: "save_record NaN m st = st\<lparr>lowest_rsd := NaN\<rparr>"
  by (simp add: save_record_def Let_def std_min_ld_def ld_less_NaN)

lemma zero_loop_record:
  assumes empty: "durations st = []"
  shows "\<exists>st' w'. sampling_loop (constant_callable 0) st w = Some (Inr st', w')
     \<and> lowest_rsd st' = NaN
     \<and> mean_lowest_rsd st' = mean_lowest_rsd st
     \<and> num_iterations_lowest_rsd st' = num_iterations_lowest_rsd st"
proof -
  let ?I = "\<lambda>s (v::world). durations s = []
     \<and> mean_lowest_rsd s = mean_lowest_rsd st
     \<and> num_iterations_lowest_rsd s = num_iterations_lowest_rsd st"
  let ?Q = "\<lambda>s (v::world). lowest_rsd s = NaN
     \<and> mean_lowest_rsd s = mean_lowest_rsd st
     \<and> num_iterations_lowest_rsd s = num_iterations_lowest_rsd st"
  have nan: "ld_div 0 (real_of_int 0) = NaN" by (simp add: ld_div_def)
  have step: "?Q s' v' \<and> ?I (s'\<lparr>durations := [], num_runs := num_runs s' + 1\<rparr>) v'"
    if I: "?I s v" and r: "sampling_round (constant_callable 0) s v = (Inr s', v')"
    for s v s' v'
  proof -
    from I have e: "durations s = []" by simp
    from r [unfolded constant_round [OF e] nan]
    have "s' = save_record NaN (real_of_int 0)
                 ((set_iterations (real_of_int 0) s)
                  \<lparr>durations := replicate (num_iterations (set_iterations (real_of_int 0) s))
                                  (real_of_int 0)\<rparr>)"
      by simp
    with I show ?thesis
      by (simp add: save_record_NaN set_iterations_other_fields)
  qed
  have "\<exists>x w''. sampling_loop (constant_callable 0) st w = Some (x, w'')
           \<and> (case x of Inl e \<Rightarrow> False | Inr st'' \<Rightarrow> ?Q st'' w'')"
  proof (rule sampling_loop_rule [where I = ?I])
    show "?I st w" using empty by simp
  next
    fix s v e v'
    assume "?I s v" and "sampling_round (constant_callable 0) s v = (Inl e, v')"
    then show False by (simp add: constant_round)
  next
    fix s v s' v'
    assume "?I s v" and "sampling_round (constant_callable 0) s v = (Inr s', v')"
    from step [OF this] show "?Q s' (bar_do MarkAsCompleted v')" by simp
  next
    fix s v s' v'
    assume "?I s v" and "sampling_round (constant_callable 0) s v = (Inr s', v')"
    from step [OF this]
    show "?I (s'\<lparr>durations := [], num_runs := num_runs s' + 1\<rparr>) v'" by simp
  qed
  then obtain x w'' where l: "sampling_loop (constant_callable 0) st w = Some (x, w'')"
    and q: "case x of Inl e \<Rightarrow> False | Inr st'' \<Rightarrow> ?Q st'' w''"
    by blast
  show ?thesis
  proof (cases x)
    case (Inl e)
    with q show ?thesis by simp
  next
    case (Inr s'')
    with q have "?Q s'' w''" by simp
    with l Inr show ?thesis by blast
  qed
qed

text \<open>
  C1 evaluated at a callable every call of which takes 2 s, so that every estimate is in
  the last bucket (1000 iterations, budget 10): the constructor returns with \<open>num_runs\<close>
  equal to the budget 10 after having measured eleven rounds (the progress 0 to 10 was
  set, and the callable was invoked 10 + 11 * 1010 times).
\<close>

theorem eleven_rounds_for_budget_ten:
  "\<exists>st w. benchmark [] (constant_callable 2000000000) start = Some (Inr st, w)
     \<and> max_num_runs st = 10 \<and> num_runs st = 10
     \<and> progress_shown (bar w) = [0, 1, 2, 3, 4, 5, 6, 7, 8, 9, 10]
     \<and> calls w = 11120"
proof -
  let ?st0 = "set_iterations (real_of_int 2000000000) initial_bench"
  let ?w3 = "bar_do (BlockProgressBar [] 10)
               (show_console_cursor False (start\<lparr>calls := calls start + 10\<rparr>))"
  have n: "num_iterations (set_iterations (real_of_int 2000000000) initial_bench) = 1000"
    and m: "max_num_runs (set_iterations (real_of_int 2000000000) initial_bench) = 10"
    by (simp_all add: set_iterations_def)
  have "durations ?st0 = []" "num_runs ?st0 \<le> 10"
    by (simp_all add: set_iterations_other_fields initial_bench_def)
  from constant_loop_counts [of ?st0 2000000000 ?w3, unfolded n m, OF this]
  obtain st' w' where l: "sampling_loop (constant_callable 2000000000) ?st0 ?w3 = Some (Inr st', w')"
    and c: "num_runs st' = 10" "max_num_runs st' = 10"
      "progress_shown (bar w') = progress_shown (bar ?w3) @ [num_runs ?st0..<10 + 1]"
      "calls w' = calls ?w3 + (10 + 1 - num_runs ?st0) * (10 + 1000)"
    by blast
  have up: "[0..<11] = [0, 1, 2, 3, 4, 5, 6, 7, 8, 9, 10::nat]"
    by (simp add: upt_rec)
  have "benchmark [] (constant_callable 2000000000) start
          = Some (Inr st', show_console_cursor True w')"
    using l m by (simp add: benchmark_def constant_update_iterations Let_def)
  moreover have "progress_shown (bar (show_console_cursor True w')) = [0, 1, 2, 3, 4, 5, 6, 7, 8, 9, 10]"
    using c(3) up
    by (simp add: show_console_cursor_def bar_do_def start_def set_iterations_other_fields
        initial_bench_def)
  moreover have "calls (show_console_cursor True w') = 11120"
    using c(4)
    by (simp add: show_console_cursor_def bar_do_def start_def set_iterations_other_fields
        initial_bench_def)
  ultimately show ?thesis using c(1,2) by blast
qed

text \<open>
  C6 evaluated at a callable every call of which is measured as 0 ns: each round's mean
  is 0, its RSD is the unguarded quotient \<open>0 * 100 / 0\<close>, NaN, which \<open>std::min\<close> stores
  into \<open>lowest_rsd\<close>; the loop runs on to its budget and ends with \<open>lowest_rsd\<close> NaN and
  an empty record.
\<close>

theorem zero_mean_rsd_propagates_nan:
  "\<exists>st w. benchmark [] (constant_callable 0) start = Some (Inr st, w)
     \<and> round_statistics (replicate 128000 0) 128000 =
         Inr \<lparr>mean = 0, variance = 0, standard_deviation = 0,
              relative_standard_deviation = NaN\<rparr>
     \<and> lowest_rsd st = NaN \<and> mean_lowest_rsd st = 0 \<and> num_iterations_lowest_rsd st = 0
     \<and> num_runs st = 10000"
proof -
  let ?st0 = "set_iterations (real_of_int 0) initial_bench"
  let ?w3 = "bar_do (BlockProgressBar [] 10000)
               (show_console_cursor False (start\<lparr>calls := calls start + 10\<rparr>))"
  have m: "max_num_runs (set_iterations (real_of_int 0) initial_bench) = 10000"
    by (simp_all add: set_iterations_def)
  have e: "durations ?st0 = []" and z: "num_runs ?st0 \<le> 10000"
    by (simp_all add: set_iterations_other_fields initial_bench_def)
  from zero_loop_record [OF e, of ?w3]
  obtain st' w' where l: "sampling_loop (constant_callable 0) ?st0 ?w3 = Some (Inr st', w')"
    and c: "lowest_rsd st' = NaN" "mean_lowest_rsd st' = mean_lowest_rsd ?st0"
      "num_iterations_lowest_rsd st' = num_iterations_lowest_rsd ?st0"
    by blast
  from constant_loop_counts [of ?st0 0 ?w3, unfolded m, OF e z] l
  have r: "num_runs st' = 10000" by auto
  have "benchmark [] (constant_callable 0) start
          = Some (Inr st', show_console_cursor True w')"
    using l m by (simp add: benchmark_def constant_update_iterations Let_def)
  moreover have "round_statistics (replicate 128000 0) 128000 =
         Inr \<lparr>mean = 0, variance = 0, standard_deviation = 0,
              relative_standard_deviation = NaN\<rparr>"
    using round_statistics_constant [of 128000 0] by (simp add: ld_div_def)
  ultimately show ?thesis using c r
    by (simp add: set_iterations_other_fields initial_bench_def)
qed

subsection \<open>Planning before every round\<close>

lemma Min_image_constant:
  assumes "finite S" and "S \<noteq> {}" and "\<And>j. j \<in> S \<Longrightarrow> f j = (c::real)"
  shows "Min (f ` S) = c"
proof -
  from assms(2,3) have "f ` S = {c}" by auto
  then show ?thesis by simp
qed



subsection \<open>Runs with a round of zero durations\<close>

lemma map_two_levels:
  assumes "\<And>j. j < k \<Longrightarrow> g j = a" and "\<And>j. k \<le> j \<Longrightarrow> j < k + l \<Longrightarrow> g j = b"
  shows "map g [0..<k + l] = replicate k a @ replicate l b"
proof (rule nth_equalityI)
  show "length (map g [0..<k + l]) = length (replicate k a @ replicate l b)" by simp
next
  fix i assume "i < length (map g [0..<k + l])"
  then have i: "i < k + l" by simp
  show "map g [0..<k + l] ! i = (replicate k a @ replicate l b) ! i"
  proof (cases "i < k")
    case True
    with i assms(1) show ?thesis by (simp add: nth_append)
  next
    case False
    with i assms(2) [of i] show ?thesis by (simp add: nth_append)
  qed
qed

lemma two_level_statistics:
  fixes v :: real
  assumes "0 < k + l"
  defines "m \<equiv> real k * v / real (k + l)"
  defines "var \<equiv> (real k * (v - m)\<^sup>2 + real l * m\<^sup>2) / real (k + l)"
  shows "round_statistics (replicate k v @ replicate l 0) (k + l) =
     Inr \<lparr>mean = m, variance = var, standard_deviation = sqrt var,
          relative_standard_deviation = ld_div (sqrt var * 100) m\<rparr>"
proof -
  have s: "sum_list (replicate k v @ replicate l 0) / real (k + l) = m"
    by (simp add: m_def sum_list_replicate)
  have q: "(\<Sum>x\<leftarrow>replicate k v @ replicate l 0. (x - m)\<^sup>2) = real k * (v - m)\<^sup>2 + real l * m\<^sup>2"
    by (simp add: sum_list_replicate)
  have len: "length (replicate k v @ replicate l (0::real)) = k + l" by simp
  show ?thesis
    by (simp only: round_statistics_eq [OF len] s q var_def)
qed

lemma statistics_rsd_300:
  "round_statistics (replicate 12800 200 @ replicate 115200 0) 128000 =
     Inr \<lparr>mean = 20, variance = 3600, standard_deviation = 60,
          relative_standard_deviation = Finite 300\<rparr>"
proof -
  have sq: "sqrt 3600 = 60" by (rule real_sqrt_unique) simp_all
  have "(0::nat) < 12800 + 115200" by simp
  from two_level_statistics [OF this, of 200] show ?thesis
    by (simp add: sq ld_div_def)
qed

lemma statistics_rsd_200:
  "round_statistics (replicate 25600 150 @ replicate 102400 0) 128000 =
     Inr \<lparr>mean = 30, variance = 3600, standard_deviation = 60,
          relative_standard_deviation = Finite 200\<rparr>"
proof -
  have sq: "sqrt 3600 = 60" by (rule real_sqrt_unique) simp_all
  have "(0::nat) < 25600 + 102400" by simp
  from two_level_statistics [OF this, of 150] show ?thesis
    by (simp add: sq ld_div_def)
qed

lemma lowest_rsd_shown_append:
  "lowest_rsd_shown (xs @ ys) = lowest_rsd_shown xs @ lowest_rsd_shown ys"
  by (induction xs rule: lowest_rsd_shown.induct) simp_all

lemma sampling_round_window:
  fixes c :: int and st :: bench
  defines "st1 \<equiv> set_iterations (real_of_int c) st"
  assumes fn: "\<And>k. fn k = Some (d k)" and empty: "durations st = []"
    and warm: "\<And>j. j < 10 \<Longrightarrow> d (calls w + j) = c"
    and ds: "map (\<lambda>j. real_of_int (d (calls w + 10 + j))) [0..<num_iterations st1] = ds"
    and rs: "round_statistics ds (num_iterations st1) = Inr s"
  defines "st' \<equiv> save_record (relative_standard_deviation s) (mean s) (st1\<lparr>durations := ds\<rparr>)"
  shows "\<exists>w'. sampling_round fn st w = (Inr st', w')
     \<and> calls w' = calls w + 10 + num_iterations st1
     \<and> lowest_rsd_shown (bar w') = lowest_rsd_shown (bar w) @ [lowest_rsd st']"
proof -
  have e: "Min ((\<lambda>j. real_of_int (d (calls w + j))) ` {..<10}) = real_of_int c"
    by (rule Min_image_constant) (simp_all add: lessThan_empty_iff warm)
  from sampling_round_total [of fn d st w, OF fn empty, unfolded e, folded st1_def, unfolded ds]
  obtain s0 where "round_statistics ds (num_iterations st1) = Inr s0"
    and r: "sampling_round fn st w =
        (Inr (save_record (relative_standard_deviation s0) (mean s0) (st1\<lparr>durations := ds\<rparr>)),
         w\<lparr>calls := calls w + 10 + num_iterations st1,
           bar := bar w @
             [SetMaxProgress (max_num_runs (save_record (relative_standard_deviation s0) (mean s0) (st1\<lparr>durations := ds\<rparr>))), SetProgress (num_runs st),
              SetPostfixText (num_runs st) (max_num_runs (save_record (relative_standard_deviation s0) (mean s0) (st1\<lparr>durations := ds\<rparr>))) (mean_lowest_rsd (save_record (relative_standard_deviation s0) (mean s0) (st1\<lparr>durations := ds\<rparr>)))
                (lowest_rsd (save_record (relative_standard_deviation s0) (mean s0) (st1\<lparr>durations := ds\<rparr>))) (num_iterations_lowest_rsd (save_record (relative_standard_deviation s0) (mean s0) (st1\<lparr>durations := ds\<rparr>)))]\<rparr>)"
    by blast
  with rs have "s0 = s" by simp
  with r show ?thesis
    by (simp add: st'_def lowest_rsd_shown_append)
qed

lemma sampling_loop_continues:
  assumes "sampling_round fn st w = (Inr st', w')" and "\<not> max_num_runs st' \<le> num_runs st'"
  shows "sampling_loop fn st w =
           sampling_loop fn (st'\<lparr>durations := [], num_runs := num_runs st' + 1\<rparr>) w'"
  using assms by (subst sampling_loop.simps) simp

lemma sampling_round_bar:
  "sampling_round fn st w = (x, w') \<Longrightarrow> \<exists>ys. bar w' = bar w @ ys"
  by (auto simp: sampling_round_def Let_def bar_do_def
      split: prod.splits sum.splits
      dest!: update_iterations_world benchmark_runs_world)

lemma zero_tail_record:
  assumes fn: "\<And>k. fn k = Some (d k)" and zero: "\<And>k. calls w \<le> k \<Longrightarrow> d k = 0"
    and empty: "durations st = []"
  shows "\<exists>st' w' ys. sampling_loop fn st w = Some (Inr st', w')
     \<and> lowest_rsd st' = NaN
     \<and> mean_lowest_rsd st' = mean_lowest_rsd st
     \<and> num_iterations_lowest_rsd st' = num_iterations_lowest_rsd st
     \<and> bar w' = bar w @ ys"
proof -
  let ?I = "\<lambda>s v. durations s = [] \<and> calls w \<le> calls v
     \<and> mean_lowest_rsd s = mean_lowest_rsd st
     \<and> num_iterations_lowest_rsd s = num_iterations_lowest_rsd st
     \<and> (\<exists>ys. bar v = bar w @ ys)"
  let ?Q = "\<lambda>s v. lowest_rsd s = NaN
     \<and> mean_lowest_rsd s = mean_lowest_rsd st
     \<and> num_iterations_lowest_rsd s = num_iterations_lowest_rsd st
     \<and> (\<exists>ys. bar v = bar w @ ys)"
  have step: "\<exists>s' v'. sampling_round fn s v = (Inr s', v') \<and> ?Q s' (bar_do MarkAsCompleted v')
       \<and> ?I (s'\<lparr>durations := [], num_runs := num_runs s' + 1\<rparr>) v'"
    if I: "?I s v" for s v
  proof -
    let ?s1 = "set_iterations (real_of_int 0) s"
    let ?n = "num_iterations ?s1"
    from I have e: "durations s = []" and ge: "calls w \<le> calls v" by simp_all
    have warm: "d (calls v + j) = 0" for j using ge by (intro zero) simp
    have "map (\<lambda>j. real_of_int (d (calls v + 10 + j))) [0..<?n + 0]
            = replicate ?n (real_of_int 0) @ replicate 0 (real_of_int 0)"
      using ge by (intro map_two_levels) (simp_all add: zero)
    then have ds: "map (\<lambda>j. real_of_int (d (calls v + 10 + j))) [0..<?n] = replicate ?n 0"
      by simp
    have rs: "round_statistics (replicate ?n 0) ?n =
       Inr \<lparr>mean = 0, variance = 0, standard_deviation = 0, relative_standard_deviation = NaN\<rparr>"
      using round_statistics_constant [OF num_iterations_positive, of 0 s 0]
      by (simp add: ld_div_def)
    from sampling_round_window [of fn d s v 0, OF fn e warm ds rs]
    obtain v' where r: "sampling_round fn s v =
        (Inr (save_record NaN 0 (?s1\<lparr>durations := replicate ?n 0\<rparr>)), v')"
      and c: "calls v' = calls v + 10 + ?n"
      by auto
    from sampling_round_bar [OF r] I obtain zs where "bar v' = bar w @ zs" by auto
    with r c I ge show ?thesis
      by (simp add: save_record_NaN set_iterations_other_fields bar_do_def)
  qed
  have "\<exists>x w''. sampling_loop fn st w = Some (x, w'')
           \<and> (case x of Inl e \<Rightarrow> False | Inr st'' \<Rightarrow> ?Q st'' w'')"
  proof (rule sampling_loop_rule [where I = ?I])
    show "?I st w" using empty by simp
  next
    fix s v e v'
    assume "?I s v" and "sampling_round fn s v = (Inl e, v')"
    with step [of s v] show False by auto
  next
    fix s v s' v'
    assume "?I s v" and "sampling_round fn s v = (Inr s', v')"
    with step [of s v] show "?Q s' (bar_do MarkAsCompleted v')" by auto
  next
    fix s v s' v'
    assume "?I s v" and "sampling_round fn s v = (Inr s', v')"
    with step [of s v]
    show "?I (s'\<lparr>durations := [], num_runs := num_runs s' + 1\<rparr>) v'" by auto
  qed
  then obtain x w'' where l: "sampling_loop fn st w = Some (x, w'')"
    and q: "case x of Inl e \<Rightarrow> False | Inr st'' \<Rightarrow> ?Q st'' w''"
    by blast
  show ?thesis
  proof (cases x)
    case (Inl e)
    with q show ?thesis by simp
  next
    case (Inr s'')
    with q have "?Q s'' w''" by simp
    with l Inr show ?thesis by blast
  qed
qed

lemma map_one_level:
  assumes "\<And>j. j < n \<Longrightarrow> g j = a"
  shows "map g [0..<n] = replicate n a"
  using map_two_levels [of n g a 0 a] assms by simp

lemma update_iterations_window:
  assumes fn: "\<And>k. fn k = Some (d k)" and warm: "\<And>j. j < 10 \<Longrightarrow> d (calls w + j) = c"
  shows "update_iterations fn st w =
     (Inr (set_iterations (real_of_int c) st), w\<lparr>calls := calls w + 10\<rparr>)"
proof -
  have e: "Min ((\<lambda>j. real_of_int (d (calls w + j))) ` {..<10}) = real_of_int c"
    by (rule Min_image_constant) (simp_all add: lessThan_empty_iff warm)
  have "estimate_execution_time fn w =
          (Inr (Min ((\<lambda>j. real_of_int (d (calls w + j))) ` {..<10})), w\<lparr>calls := calls w + 10\<rparr>)"
    by (rule estimate_execution_time_returns) (simp add: fn)
  then show ?thesis by (simp add: update_iterations_def e)
qed

lemma sampling_round_window_fields:
  fixes c :: int and st :: bench
  defines "st1 \<equiv> set_iterations (real_of_int c) st"
  assumes fn: "\<And>k. fn k = Some (d k)" and empty: "durations st = []"
    and warm: "\<And>j. j < 10 \<Longrightarrow> d (calls w + j) = c"
    and ds: "map (\<lambda>j. real_of_int (d (calls w + 10 + j))) [0..<num_iterations st1] = ds"
    and rs: "round_statistics ds (num_iterations st1) = Inr s"
  shows "\<exists>st' w'. sampling_round fn st w = (Inr st', w')
     \<and> calls w' = calls w + 10 + num_iterations st1
     \<and> lowest_rsd_shown (bar w') = lowest_rsd_shown (bar w) @ [lowest_rsd st']
     \<and> num_runs st' = num_runs st \<and> max_num_runs st' = max_num_runs st1
     \<and> lowest_rsd st' = std_min_ld (relative_standard_deviation s) (lowest_rsd st)
     \<and> (mean_lowest_rsd st', num_iterations_lowest_rsd st') =
         (if ld_less (relative_standard_deviation s) (lowest_rsd st)
          then (mean s, num_iterations st1)
          else (mean_lowest_rsd st, num_iterations_lowest_rsd st))"
proof -
  let ?st' = "save_record (relative_standard_deviation s) (mean s) (st1\<lparr>durations := ds\<rparr>)"
  from sampling_round_window [of fn d st w c ds s, OF fn empty warm, folded st1_def, OF _ ds rs]
  obtain w' where r: "sampling_round fn st w = (Inr ?st', w')"
    and c: "calls w' = calls w + 10 + num_iterations st1"
    and b: "lowest_rsd_shown (bar w') = lowest_rsd_shown (bar w) @ [lowest_rsd ?st']"
    by blast
  have f1: "num_runs ?st' = num_runs st" "max_num_runs ?st' = max_num_runs st1"
    "lowest_rsd ?st' = std_min_ld (relative_standard_deviation s) (lowest_rsd st)"
    by (simp_all add: save_record_other_fields lowest_rsd_save_record st1_def
        set_iterations_other_fields)
  have f2: "(mean_lowest_rsd ?st', num_iterations_lowest_rsd ?st') =
         (if ld_less (relative_standard_deviation s) (lowest_rsd st)
          then (mean s, num_iterations st1)
          else (mean_lowest_rsd st, num_iterations_lowest_rsd st))"
    using save_record_updates [of "relative_standard_deviation s" "st1\<lparr>durations := ds\<rparr>" "mean s"]
      save_record_retains [of "relative_standard_deviation s" "st1\<lparr>durations := ds\<rparr>" "mean s"]
    by (simp add: st1_def set_iterations_other_fields)
  from r c b f1 f2 show ?thesis by blast
qed

lemma round_of_128000:
  fixes c :: int
  assumes fn: "\<And>k. fn k = Some (d k)" and empty: "durations st = []"
    and warm: "\<And>j. j < 10 \<Longrightarrow> d (calls w + j) = c" and small: "c < 100"
    and ds: "map (\<lambda>j. real_of_int (d (calls w + 10 + j))) [0..<128000] = ds"
    and rs: "round_statistics ds 128000 = Inr s"
  shows "\<exists>st' w'. sampling_round fn st w = (Inr st', w')
     \<and> calls w' = calls w + 128010
     \<and> lowest_rsd_shown (bar w') = lowest_rsd_shown (bar w) @ [lowest_rsd st']
     \<and> num_runs st' = num_runs st \<and> max_num_runs st' = 10000
     \<and> lowest_rsd st' = std_min_ld (relative_standard_deviation s) (lowest_rsd st)
     \<and> (mean_lowest_rsd st', num_iterations_lowest_rsd st') =
         (if ld_less (relative_standard_deviation s) (lowest_rsd st)
          then (mean s, 128000)
          else (mean_lowest_rsd st, num_iterations_lowest_rsd st))"
proof -
  from small have p: "num_iterations (set_iterations (real_of_int c) st) = 128000"
    "max_num_runs (set_iterations (real_of_int c) st) = 10000"
    by (simp_all add: set_iterations_def)
  have a: "calls w + 10 + (128000::nat) = calls w + 128010" by simp
  from sampling_round_window_fields
         [of fn d st w c ds s, OF fn empty warm, unfolded p, OF _ ds rs, unfolded a]
  show ?thesis .
qed

text \<open>
  C4 evaluated at a callable whose first round measures 50 ns in every iteration, whose
  second round measures 0 ns in every iteration, and whose third round measures 150 ns
  in 25600 iterations and 0 ns in the others: the rounds' RSD are 0, NaN and 200, and
  \<open>lowest_rsd\<close>, as shown after each round, is 0, then NaN, then 200. It has risen.
\<close>

theorem lowest_rsd_rises_after_zero_round:
  "\<exists>st w. benchmark [] (returning zero_round_between) start = Some (Inr st, w)
     \<and> take 3 (lowest_rsd_shown (bar w)) = [Finite 0, NaN, Finite 200]
     \<and> ld_less (Finite 0) (Finite 200)"
proof -
  let ?f = "returning zero_round_between"
  let ?d = zero_round_between
  have fn: "?f k = Some (?d k)" for k by (simp add: returning_def)
  let ?st0 = "set_iterations 50 initial_bench"
  let ?w0 = "bar_do (BlockProgressBar [] 10000)
               (show_console_cursor False (start\<lparr>calls := calls start + 10\<rparr>))"
  have plan: "update_iterations ?f initial_bench start = (Inr ?st0, start\<lparr>calls := calls start + 10\<rparr>)"
    using update_iterations_window [of ?f ?d start 50 initial_bench, OF fn]
    by (simp add: zero_round_between_def start_def)
  have st0: "durations ?st0 = []" "num_runs ?st0 = 0" "lowest_rsd ?st0 = Finite 100"
    "max_num_runs ?st0 = 10000"
    by (simp_all add: set_iterations_def initial_bench_def)
  have w0: "calls ?w0 = 10" "lowest_rsd_shown (bar ?w0) = []"
    by (simp_all add: bar_do_def show_console_cursor_def start_def)
  have fifty_stats: "round_statistics (replicate 128000 50) 128000 =
       Inr \<lparr>mean = 50, variance = 0, standard_deviation = 0,
            relative_standard_deviation = Finite 0\<rparr>"
    using round_statistics_constant [of 128000 50] by (simp add: ld_div_def)
  have zero_stats: "round_statistics (replicate 128000 0) 128000 =
       Inr \<lparr>mean = 0, variance = 0, standard_deviation = 0, relative_standard_deviation = NaN\<rparr>"
    using round_statistics_constant [of 128000 0] by (simp add: ld_div_def)
  \<comment> \<open>round 1: every duration is 50\<close>
  have "map (\<lambda>j. real_of_int (?d (calls ?w0 + 10 + j))) [0..<128000]
          = replicate 128000 (real_of_int 50)"
    by (rule map_one_level) (simp add: w0 zero_round_between_def)
  then have ds1: "map (\<lambda>j. real_of_int (?d (calls ?w0 + 10 + j))) [0..<128000]
          = replicate 128000 50"
    by simp
  have "\<And>j. j < 10 \<Longrightarrow> ?d (calls ?w0 + j) = 50"
    by (simp add: w0 zero_round_between_def)
  from round_of_128000 [of ?f ?d ?st0 ?w0 50, OF fn st0(1) this _ ds1 fifty_stats]
  obtain st1 w1 where r1: "sampling_round ?f ?st0 ?w0 = (Inr st1, w1)"
    and c1: "calls w1 = 128020" "lowest_rsd_shown (bar w1) = [Finite 0]"
      "num_runs st1 = 0" "max_num_runs st1 = 10000" "lowest_rsd st1 = Finite 0"
    by (auto simp: st0 w0 std_min_ld_def)
  let ?st1 = "st1\<lparr>durations := [], num_runs := num_runs st1 + 1\<rparr>"
  have l1: "sampling_loop ?f ?st0 ?w0 = sampling_loop ?f ?st1 w1"
    by (rule sampling_loop_continues [OF r1]) (simp add: c1)
  \<comment> \<open>round 2: every duration is 0\<close>
  have ds2: "map (\<lambda>j. real_of_int (?d (calls w1 + 10 + j))) [0..<128000] = replicate 128000 0"
    by (rule map_one_level) (simp add: c1 zero_round_between_def)
  have "\<And>j. j < 10 \<Longrightarrow> ?d (calls w1 + j) = 50"
    by (simp add: c1 zero_round_between_def)
  from round_of_128000 [of ?f ?d ?st1 w1 50, OF fn _ this _ ds2 zero_stats]
  obtain st2 w2 where r2: "sampling_round ?f ?st1 w1 = (Inr st2, w2)"
    and c2: "calls w2 = 256030" "lowest_rsd_shown (bar w2) = [Finite 0, NaN]"
      "num_runs st2 = 1" "max_num_runs st2 = 10000" "lowest_rsd st2 = NaN"
    by (auto simp: c1 std_min_ld_def)
  let ?st2 = "st2\<lparr>durations := [], num_runs := num_runs st2 + 1\<rparr>"
  have l2: "sampling_loop ?f ?st1 w1 = sampling_loop ?f ?st2 w2"
    by (rule sampling_loop_continues [OF r2]) (simp add: c2)
  \<comment> \<open>round 3: 25600 durations of 150, then 0\<close>
  have "map (\<lambda>j. real_of_int (?d (calls w2 + 10 + j))) [0..<25600 + 102400]
          = replicate 25600 (real_of_int 150) @ replicate 102400 (real_of_int 0)"
    by (rule map_two_levels) (simp_all add: c2 zero_round_between_def)
  then have ds3: "map (\<lambda>j. real_of_int (?d (calls w2 + 10 + j))) [0..<128000]
          = replicate 25600 150 @ replicate 102400 0"
    by simp
  have "\<And>j. j < 10 \<Longrightarrow> ?d (calls w2 + j) = 0"
    by (simp add: c2 zero_round_between_def)
  from round_of_128000 [of ?f ?d ?st2 w2 0, OF fn _ this _ ds3 statistics_rsd_200]
  obtain st3 w3 where r3: "sampling_round ?f ?st2 w2 = (Inr st3, w3)"
    and c3: "calls w3 = 384040" "lowest_rsd_shown (bar w3) = [Finite 0, NaN, Finite 200]"
      "num_runs st3 = 2" "max_num_runs st3 = 10000"
    by (auto simp: c2 std_min_ld_def)
  let ?st3 = "st3\<lparr>durations := [], num_runs := num_runs st3 + 1\<rparr>"
  have l3: "sampling_loop ?f ?st2 w2 = sampling_loop ?f ?st3 w3"
    by (rule sampling_loop_continues [OF r3]) (simp add: c3)
  \<comment> \<open>every later duration is 0\<close>
  have "\<And>k. calls w3 \<le> k \<Longrightarrow> ?d k = 0"
    by (simp add: c3 zero_round_between_def)
  from zero_tail_record [of ?f ?d w3 ?st3, OF fn this]
  obtain st' w' ys where l4: "sampling_loop ?f ?st3 w3 = Some (Inr st', w')"
    and c4: "bar w' = bar w3 @ ys"
    by auto
  from l1 l2 l3 l4 have "sampling_loop ?f ?st0 ?w0 = Some (Inr st', w')" by simp
  with plan have "benchmark [] ?f start = Some (Inr st', show_console_cursor True w')"
    by (simp add: benchmark_def Let_def st0)
  moreover have "take 3 (lowest_rsd_shown (bar (show_console_cursor True w')))
                   = [Finite 0, NaN, Finite 200]"
    by (simp add: show_console_cursor_def c4 lowest_rsd_shown_append c3)
  ultimately show ?thesis by simp
qed

text \<open>
  C10 evaluated at a callable whose first round measures 0 ns in every iteration, whose
  second round measures 200 ns in 12800 iterations and whose third round measures
  150 ns in 25600 iterations, every other call being measured at 0 ns: the rounds' RSD
  are NaN, 300, 200 and NaN ever after, none of them below 100, and the constructor
  returns with the third round's mean 30 and iteration count 128000 in the record.
\<close>

theorem record_written_without_rsd_below_sentinel:
  "\<exists>st w. benchmark [] (returning zero_round_first) start = Some (Inr st, w)
     \<and> take 3 (lowest_rsd_shown (bar w)) = [NaN, Finite 300, Finite 200]
     \<and> \<not> ld_less NaN (Finite 100) \<and> \<not> ld_less (Finite 300) (Finite 100)
     \<and> \<not> ld_less (Finite 200) (Finite 100)
     \<and> mean_lowest_rsd st = 30 \<and> num_iterations_lowest_rsd st = 128000"
proof -
  let ?f = "returning zero_round_first"
  let ?d = zero_round_first
  have fn: "?f k = Some (?d k)" for k by (simp add: returning_def)
  let ?st0 = "set_iterations 0 initial_bench"
  let ?w0 = "bar_do (BlockProgressBar [] 10000)
               (show_console_cursor False (start\<lparr>calls := calls start + 10\<rparr>))"
  have plan: "update_iterations ?f initial_bench start = (Inr ?st0, start\<lparr>calls := calls start + 10\<rparr>)"
    using update_iterations_window [of ?f ?d start 0 initial_bench, OF fn]
    by (simp add: zero_round_first_def start_def)
  have st0: "durations ?st0 = []" "num_runs ?st0 = 0" "lowest_rsd ?st0 = Finite 100"
    "mean_lowest_rsd ?st0 = 0" "num_iterations_lowest_rsd ?st0 = 0" "max_num_runs ?st0 = 10000"
    by (simp_all add: set_iterations_def initial_bench_def)
  have w0: "calls ?w0 = 10" "lowest_rsd_shown (bar ?w0) = []"
    by (simp_all add: bar_do_def show_console_cursor_def start_def)
  have zero_stats: "round_statistics (replicate 128000 0) 128000 =
       Inr \<lparr>mean = 0, variance = 0, standard_deviation = 0, relative_standard_deviation = NaN\<rparr>"
    using round_statistics_constant [of 128000 0] by (simp add: ld_div_def)
  \<comment> \<open>round 1: every duration is 0\<close>
  have ds1: "map (\<lambda>j. real_of_int (?d (calls ?w0 + 10 + j))) [0..<128000] = replicate 128000 0"
    by (rule map_one_level) (simp add: w0 zero_round_first_def)
  have "\<And>j. j < 10 \<Longrightarrow> ?d (calls ?w0 + j) = 0"
    by (simp add: w0 zero_round_first_def)
  from round_of_128000 [of ?f ?d ?st0 ?w0 0, OF fn st0(1) this _ ds1 zero_stats]
  obtain st1 w1 where r1: "sampling_round ?f ?st0 ?w0 = (Inr st1, w1)"
    and c1: "calls w1 = 128020" "lowest_rsd_shown (bar w1) = [NaN]"
      "num_runs st1 = 0" "max_num_runs st1 = 10000" "lowest_rsd st1 = NaN"
      "mean_lowest_rsd st1 = 0" "num_iterations_lowest_rsd st1 = 0"
    by (auto simp: st0 w0 std_min_ld_def)
  let ?st1 = "st1\<lparr>durations := [], num_runs := num_runs st1 + 1\<rparr>"
  have l1: "sampling_loop ?f ?st0 ?w0 = sampling_loop ?f ?st1 w1"
    by (rule sampling_loop_continues [OF r1]) (simp add: c1)
  \<comment> \<open>round 2: 12800 durations of 200, then 0\<close>
  have "map (\<lambda>j. real_of_int (?d (calls w1 + 10 + j))) [0..<12800 + 115200]
          = replicate 12800 (real_of_int 200) @ replicate 115200 (real_of_int 0)"
    by (rule map_two_levels) (simp_all add: c1 zero_round_first_def)
  then have ds2: "map (\<lambda>j. real_of_int (?d (calls w1 + 10 + j))) [0..<128000]
          = replicate 12800 200 @ replicate 115200 0"
    by simp
  have "\<And>j. j < 10 \<Longrightarrow> ?d (calls w1 + j) = 0"
    by (simp add: c1 zero_round_first_def)
  from round_of_128000 [of ?f ?d ?st1 w1 0, OF fn _ this _ ds2 statistics_rsd_300]
  obtain st2 w2 where r2: "sampling_round ?f ?st1 w1 = (Inr st2, w2)"
    and c2: "calls w2 = 256030" "lowest_rsd_shown (bar w2) = [NaN, Finite 300]"
      "num_runs st2 = 1" "max_num_runs st2 = 10000" "lowest_rsd st2 = Finite 300"
      "mean_lowest_rsd st2 = 0" "num_iterations_lowest_rsd st2 = 0"
    by (auto simp: c1 std_min_ld_def)
  let ?st2 = "st2\<lparr>durations := [], num_runs := num_runs st2 + 1\<rparr>"
  have l2: "sampling_loop ?f ?st1 w1 = sampling_loop ?f ?st2 w2"
    by (rule sampling_loop_continues [OF r2]) (simp add: c2)
  \<comment> \<open>round 3: 25600 durations of 150, then 0\<close>
  have "map (\<lambda>j. real_of_int (?d (calls w2 + 10 + j))) [0..<25600 + 102400]
          = replicate 25600 (real_of_int 150) @ replicate 102400 (real_of_int 0)"
    by (rule map_two_levels) (simp_all add: c2 zero_round_first_def)
  then have ds3: "map (\<lambda>j. real_of_int (?d (calls w2 + 10 + j))) [0..<128000]
          = replicate 25600 150 @ replicate 102400 0"
    by simp
  have "\<And>j. j < 10 \<Longrightarrow> ?d (calls w2 + j) = 0"
    by (simp add: c2 zero_round_first_def)
  from round_of_128000 [of ?f ?d ?st2 w2 0, OF fn _ this _ ds3 statistics_rsd_200]
  obtain st3 w3 where r3: "sampling_round ?f ?st2 w2 = (Inr st3, w3)"
    and c3: "calls w3 = 384040" "lowest_rsd_shown (bar w3) = [NaN, Finite 300, Finite 200]"
      "num_runs st3 = 2" "max_num_runs st3 = 10000" "lowest_rsd st3 = Finite 200"
      "mean_lowest_rsd st3 = 30" "num_iterations_lowest_rsd st3 = 128000"
    by (auto simp: c2 std_min_ld_def)
  let ?st3 = "st3\<lparr>durations := [], num_runs := num_runs st3 + 1\<rparr>"
  have l3: "sampling_loop ?f ?st2 w2 = sampling_loop ?f ?st3 w3"
    by (rule sampling_loop_continues [OF r3]) (simp add: c3)
  \<comment> \<open>every later duration is 0\<close>
  have "\<And>k. calls w3 \<le> k \<Longrightarrow> ?d k = 0"
    by (simp add: c3 zero_round_first_def)
  from zero_tail_record [of ?f ?d w3 ?st3, OF fn this]
  obtain st' w' ys where l4: "sampling_loop ?f ?st3 w3 = Some (Inr st', w')"
    and c4: "mean_lowest_rsd st' = 30" "num_iterations_lowest_rsd st' = 128000"
      "bar w' = bar w3 @ ys"
    by (auto simp: c3)
  from l1 l2 l3 l4 have "sampling_loop ?f ?st0 ?w0 = Some (Inr st', w')" by simp
  with plan have "benchmark [] ?f start = Some (Inr st', show_console_cursor True w')"
    by (simp add: benchmark_def Let_def st0)
  moreover have "take 3 (lowest_rsd_shown (bar (show_console_cursor True w')))
                   = [NaN, Finite 300, Finite 200]"
    by (simp add: show_console_cursor_def c4 lowest_rsd_shown_append c3)
  ultimately show ?thesis using c4 by simp
qed

end
